theory Spec2Isabelle
  imports Complex_Main "HOL-Library.Word"
begin

unbundle bit_operations_syntax

section \<open>Data model\<close>

text \<open>
  Buffers and expression slots are reached through pointers; the model keeps a store
  from addresses to contents, so that the pointer comparisons of the source
  (\<^verbatim>\<open>input[0]==output[0]\<close>) are comparisons of addresses.
\<close>

type_synonym addr = nat

text \<open>
  Modelled from the spec: the macro \<^verbatim>\<open>casadi_assert\<close> is not part of the sources at
  hand. A failed assertion is a contract violation signalled at once, the value
  \<open>AssertionFailed\<close>. \<open>OutOfBounds\<close> stands for an access past the end of a vector
  or buffer, which the C++ source leaves undefined.
\<close>

datatype error = AssertionFailed | OutOfBounds

text \<open>
  Modelled from the spec: the class \<^verbatim>\<open>Sparsity\<close> is not part of the sources at hand.
  It is a value object with per-axis extents and a nonzero count; \<open>nz_pos\<close> lists the
  (row, column) position of every structural nonzero in storage order.
\<close>

record Sparsity =
  size1 :: nat
  size2 :: nat
  nz_pos :: "(nat \<times> nat) list"

definition nnz :: "Sparsity \<Rightarrow> nat" where
  "nnz sp = length (nz_pos sp)"

definition shape :: "Sparsity \<Rightarrow> nat \<times> nat" where
  "shape sp = (size1 sp, size2 sp)"

text \<open>
  Modelled from the spec: the range selector \<^verbatim>\<open>Slice\<close> is not part of the sources at
  hand. It has start, stop and step, and enumerates the indices
  \<open>start, start + step, \<dots>\<close> below \<open>stop\<close> in that order.
\<close>

record Slice =
  start :: nat
  stop :: nat
  step :: nat

definition slice_indices :: "Slice \<Rightarrow> nat list" where
  "slice_indices sl =
     map (\<lambda>k. start sl + k * step sl)
         [0 ..< (if step sl = 0 then 0 else (stop sl - start sl + step sl - 1) div step sl)]"

text \<open>
  The symbolic matrix expression type \<^verbatim>\<open>MX\<close> and the helpers of
  \<^verbatim>\<open>mx_tools\<close> are declared outside the sources at hand. The node code is
  therefore read over an arbitrary expression type \<open>'mx\<close> with the operations it calls:
  \<^item> \<open>mx_sparsity x\<close> is \<^verbatim>\<open>x.sparsity()\<close>, from which \<^verbatim>\<open>x.nnz()\<close> and
    \<^verbatim>\<open>x.shape()\<close> are read;
  \<^item> \<open>mx_empty\<close> is the default-constructed \<^verbatim>\<open>MX()\<close>;
  \<^item> \<open>mx_reshape x sh\<close> is \<^verbatim>\<open>reshape(x, sh)\<close>;
  \<^item> \<open>mx_addToSum a y\<close> is the value of \<^verbatim>\<open>a\<close> after \<^verbatim>\<open>a.addToSum(y)\<close>;
  \<^item> \<open>mx_sub x i j\<close> is the sub-block of \<open>x\<close> addressed by two selectors;
  \<^item> \<open>mx_scatter y sp i j\<close> is the zero-filled value of pattern \<open>sp\<close> that holds
    \<open>y\<close> in the block addressed by the two selectors.
\<close>

record 'mx MX_ops =
  mx_sparsity :: "'mx \<Rightarrow> Sparsity"
  mx_empty :: "'mx"
  mx_reshape :: "'mx \<Rightarrow> nat \<times> nat \<Rightarrow> 'mx"
  mx_addToSum :: "'mx \<Rightarrow> 'mx \<Rightarrow> 'mx"
  mx_sub :: "'mx \<Rightarrow> Slice \<Rightarrow> Slice \<Rightarrow> 'mx"
  mx_scatter :: "'mx \<Rightarrow> Sparsity \<Rightarrow> Slice \<Rightarrow> Slice \<Rightarrow> 'mx"

definition mx_nnz :: "'mx MX_ops \<Rightarrow> 'mx \<Rightarrow> nat" where
  "mx_nnz ops x = nnz (mx_sparsity ops x)"

definition mx_shape :: "'mx MX_ops \<Rightarrow> 'mx \<Rightarrow> nat \<times> nat" where
  "mx_shape ops x = shape (mx_sparsity ops x)"

text \<open>
  A graph node owns its single dependency and its own sparsity pattern
  (\<^verbatim>\<open>setDependencies\<close>, \<^verbatim>\<open>setSparsity\<close>). A Reshape node has no further
  attribute; a SubRef node adds the two selectors \<^verbatim>\<open>i_\<close> and \<^verbatim>\<open>j_\<close>
  (here \<open>i_slice\<close> and \<open>j_slice\<close>).
\<close>

record 'mx MXNode =
  dep :: "'mx"
  sparsity :: Sparsity

type_synonym 'mx Reshape = "'mx MXNode"

record 'mx SubRef = "'mx MXNode" +
  i_slice :: Slice
  j_slice :: Slice

section \<open>Reshape\<close>

subsection \<open>Construction\<close>

text \<open>
  \<^verbatim>\<open>Reshape::Reshape(const MX& x, Sparsity sp)\<close>: the assertion on the nonzero counts
  comes first; only then are dependency and sparsity set.
\<close>

definition Reshape :: "'mx MX_ops \<Rightarrow> 'mx \<Rightarrow> Sparsity \<Rightarrow> error + 'mx Reshape" where
  "Reshape ops x sp =
     (if mx_nnz ops x = nnz sp then Inr \<lparr>dep = x, sparsity = sp\<rparr>
      else Inl AssertionFailed)"

subsection \<open>Numeric and symbolic-scalar evaluation\<close>

text \<open>
  \<^verbatim>\<open>std::copy(arg, arg+n, res)\<close>, element by element from index \<open>k\<close> on. The source and
  the destination are the data of two different matrices.
\<close>

function std_copy :: "'a list \<Rightarrow> nat \<Rightarrow> nat \<Rightarrow> 'a list \<Rightarrow> error + 'a list" where
  "std_copy arg k n res =
     (if k < n then
        (if k < length arg \<and> k < length res
         then std_copy arg (Suc k) n (res[k := arg ! k])
         else Inl OutOfBounds)
      else Inr res)"
  by pat_completeness auto
termination
  by (relation "measure (\<lambda>(arg, k, n, res). n - k)") auto

declare std_copy.simps [simp del]

text \<open>
  \<^verbatim>\<open>Reshape::evaluateGen\<close>. The store maps the address of a matrix to its nonzero
  data; the work vectors \<^verbatim>\<open>itmp\<close> and \<^verbatim>\<open>rtmp\<close> are not used by the body.
\<close>

definition evaluateGen ::
  "'mx Reshape \<Rightarrow> addr list \<Rightarrow> addr list \<Rightarrow> (addr \<Rightarrow> 'a list) \<Rightarrow> error + (addr \<Rightarrow> 'a list)" where
  "evaluateGen node input output mem =
     (case (input, output) of
        (i0 # _, o0 # _) \<Rightarrow>
          if i0 = o0 then Inr mem
          else (case std_copy (mem i0) 0 (nnz (sparsity node)) (mem o0) of
                  Inl e \<Rightarrow> Inl e
                | Inr res \<Rightarrow> Inr (mem(o0 := res)))
      | _ \<Rightarrow> Inl OutOfBounds)"

text \<open>\<^verbatim>\<open>evaluateD\<close> and \<^verbatim>\<open>evaluateSX\<close> instantiate the template at the two scalar types.\<close>

definition evaluateD ::
  "'mx Reshape \<Rightarrow> addr list \<Rightarrow> addr list \<Rightarrow> (addr \<Rightarrow> 'double list)
     \<Rightarrow> error + (addr \<Rightarrow> 'double list)" where
  "evaluateD node input output mem = evaluateGen node input output mem"

definition evaluateSX ::
  "'mx Reshape \<Rightarrow> addr list \<Rightarrow> addr list \<Rightarrow> (addr \<Rightarrow> 'sxelement list)
     \<Rightarrow> error + (addr \<Rightarrow> 'sxelement list)" where
  "evaluateSX node input output mem = evaluateGen node input output mem"

subsection \<open>Sparsity propagation\<close>

text \<open>
  \<^verbatim>\<open>bvec_t\<close> is a 64-bit unsigned integer laid over each entry of the data vector. The
  backward loop walks both buffers with one index.
\<close>

type_synonym bvec_t = "64 word"

function bwd_loop ::
  "bvec_t list \<Rightarrow> bvec_t list \<Rightarrow> nat \<Rightarrow> nat \<Rightarrow> error + (bvec_t list \<times> bvec_t list)" where
  "bwd_loop arg res n k =
     (if k < n then
        (if k < length arg \<and> k < length res
         then bwd_loop (arg[k := arg ! k OR res ! k]) (res[k := 0]) n (Suc k)
         else Inl OutOfBounds)
      else Inr (arg, res))"
  by pat_completeness auto
termination
  by (relation "measure (\<lambda>(arg, res, n, k). n - k)") auto

declare bwd_loop.simps [simp del]

definition propagateSparsity ::
  "'mx Reshape \<Rightarrow> addr list \<Rightarrow> addr list \<Rightarrow> bool \<Rightarrow> (addr \<Rightarrow> bvec_t list)
     \<Rightarrow> error + (addr \<Rightarrow> bvec_t list)" where
  "propagateSparsity node input output fwd mem =
     (case (input, output) of
        (i0 # _, o0 # _) \<Rightarrow>
          if i0 = o0 then Inr mem
          else if fwd then
            (case std_copy (mem i0) 0 (length (mem i0)) (mem o0) of
               Inl e \<Rightarrow> Inl e
             | Inr res \<Rightarrow> Inr (mem(o0 := res)))
          else
            (case bwd_loop (mem i0) (mem o0) (length (mem i0)) 0 of
               Inl e \<Rightarrow> Inl e
             | Inr (arg, res) \<Rightarrow> Inr (mem(i0 := arg, o0 := res)))
      | _ \<Rightarrow> Inl OutOfBounds)"

subsection \<open>Symbolic-graph evaluation\<close>

text \<open>
  \<^verbatim>\<open>MXPtrV\<close> is a vector of pointers to expression slots and \<^verbatim>\<open>MXPtrVV\<close> a vector
  of such vectors, one per direction. \<open>slot0 v d\<close> is the pointer \<^verbatim>\<open>v[d][0]\<close>, when
  both indices are in range.
\<close>

definition slot0 :: "addr list list \<Rightarrow> nat \<Rightarrow> addr option" where
  "slot0 v d =
     (if d < length v then (case v ! d of [] \<Rightarrow> None | p # _ \<Rightarrow> Some p) else None)"

text \<open>The loop over the forward directions, from direction \<open>d\<close> on.\<close>

function fwd_loop ::
  "'mx MX_ops \<Rightarrow> 'mx Reshape \<Rightarrow> addr list list \<Rightarrow> addr list list \<Rightarrow> nat \<Rightarrow> nat
     \<Rightarrow> (addr \<Rightarrow> 'mx) \<Rightarrow> error + (addr \<Rightarrow> 'mx)" where
  "fwd_loop ops node fwdSeed fwdSens nfwd d s =
     (if d < nfwd then
        (case (slot0 fwdSens d, slot0 fwdSeed d) of
           (Some sens, Some seed) \<Rightarrow>
             fwd_loop ops node fwdSeed fwdSens nfwd (Suc d)
               (s(sens := mx_reshape ops (s seed) (shape (sparsity node))))
         | _ \<Rightarrow> Inl OutOfBounds)
      else Inr s)"
  by pat_completeness auto
termination
  by (relation "measure (\<lambda>(ops, node, fwdSeed, fwdSens, nfwd, d, s). nfwd - d)") auto

declare fwd_loop.simps [simp del]

text \<open>
  The loop over the adjoint directions, from direction \<open>d\<close> on: the reshaped seed is
  added to the sensitivity slot, then the seed slot is assigned \<^verbatim>\<open>MX()\<close>.
\<close>

function adj_loop ::
  "'mx MX_ops \<Rightarrow> 'mx Reshape \<Rightarrow> addr list list \<Rightarrow> addr list list \<Rightarrow> nat \<Rightarrow> nat
     \<Rightarrow> (addr \<Rightarrow> 'mx) \<Rightarrow> error + (addr \<Rightarrow> 'mx)" where
  "adj_loop ops node adjSeed adjSens nadj d s =
     (if d < nadj then
        (case (slot0 adjSeed d, slot0 adjSens d) of
           (Some aseed, Some asens) \<Rightarrow>
             adj_loop ops node adjSeed adjSens nadj (Suc d)
               ((s(asens := mx_addToSum ops (s asens)
                              (mx_reshape ops (s aseed) (mx_shape ops (dep node)))))
                 (aseed := mx_empty ops))
         | _ \<Rightarrow> Inl OutOfBounds)
      else Inr s)"
  by pat_completeness auto
termination
  by (relation "measure (\<lambda>(ops, node, adjSeed, adjSens, nadj, d, s). nadj - d)") auto

declare adj_loop.simps [simp del]

text \<open>\<^verbatim>\<open>Reshape::evaluateMX\<close>. The store maps the address of a slot to the expression in it.\<close>

definition evaluateMX ::
  "'mx MX_ops \<Rightarrow> 'mx Reshape \<Rightarrow> addr list \<Rightarrow> addr list \<Rightarrow> addr list list \<Rightarrow> addr list list
     \<Rightarrow> addr list list \<Rightarrow> addr list list \<Rightarrow> bool \<Rightarrow> (addr \<Rightarrow> 'mx) \<Rightarrow> error + (addr \<Rightarrow> 'mx)" where
  "evaluateMX ops node input output fwdSeed fwdSens adjSeed adjSens output_given s =
     (case (input, output) of
        (i0 # _, o0 # _) \<Rightarrow>
          if i0 = o0 then Inr s
          else
            (case fwd_loop ops node fwdSeed fwdSens (length fwdSens) 0
                    (if \<not> output_given
                     then s(o0 := mx_reshape ops (s i0) (shape (sparsity node)))
                     else s) of
               Inl e \<Rightarrow> Inl e
             | Inr s' \<Rightarrow> adj_loop ops node adjSeed adjSens (length adjSeed) 0 s')
      | _ \<Rightarrow> Inl OutOfBounds)"

text \<open>
  The slots of one call are laid out properly when every direction has its seed and its
  sensitivity slot, the slots the call writes (output, forward sensitivities, adjoint
  sensitivities, adjoint seeds) are pairwise different storage, and no forward seed is
  the output slot or a forward sensitivity slot.
\<close>

definition slots0 :: "addr list list \<Rightarrow> addr list" where
  "slots0 v = map hd v"

definition separate_slots ::
  "addr list \<Rightarrow> addr list list \<Rightarrow> addr list list \<Rightarrow> addr list list \<Rightarrow> addr list list \<Rightarrow> bool" where
  "separate_slots output fwdSeed fwdSens adjSeed adjSens \<longleftrightarrow>
     length fwdSeed = length fwdSens \<and> length adjSens = length adjSeed \<and>
     [] \<notin> set fwdSeed \<and> [] \<notin> set fwdSens \<and> [] \<notin> set adjSeed \<and> [] \<notin> set adjSens \<and>
     distinct (take 1 output @ slots0 fwdSens @ slots0 adjSens @ slots0 adjSeed) \<and>
     set (slots0 fwdSeed) \<inter> set (take 1 output @ slots0 fwdSens) = {}"

section \<open>SubRef\<close>

text \<open>
  Only the declaration of the class \<^verbatim>\<open>SubRef\<close> is among the sources at hand; the
  bodies of its member functions are modelled from the specification.
\<close>

text \<open>The index of the structural nonzero at position \<open>p\<close> in a pattern's storage order.\<close>

fun find_nz :: "(nat \<times> nat) list \<Rightarrow> nat \<times> nat \<Rightarrow> nat option" where
  "find_nz [] p = None"
| "find_nz (q # qs) p = (if q = p then Some 0 else map_option Suc (find_nz qs p))"

text \<open>
  The block addressed by a row selector and a column selector: its own coordinates row by
  row, and the position in the dependency that a block coordinate stands for.
\<close>

definition block_coords :: "Slice \<Rightarrow> Slice \<Rightarrow> (nat \<times> nat) list" where
  "block_coords i j =
     List.product [0 ..< length (slice_indices i)] [0 ..< length (slice_indices j)]"

definition dep_position :: "Slice \<Rightarrow> Slice \<Rightarrow> nat \<times> nat \<Rightarrow> nat \<times> nat" where
  "dep_position i j c = (slice_indices i ! fst c, slice_indices j ! snd c)"

text \<open>
  Modelled from the spec: the restriction of the dependency's pattern to the addressed
  block (\<^verbatim>\<open>Sparsity::sub\<close> is not part of the sources at hand). \<open>sub_sparsity\<close> is the
  pattern of the block, its nonzeros in the block's row-major order; \<open>subref_nz\<close> lists,
  in the same order, the index in the dependency's nonzero sequence of every structural
  nonzero lying inside the block.
\<close>

definition sub_sparsity :: "Sparsity \<Rightarrow> Slice \<Rightarrow> Slice \<Rightarrow> Sparsity" where
  "sub_sparsity sp i j =
     \<lparr>size1 = length (slice_indices i), size2 = length (slice_indices j),
      nz_pos = filter (\<lambda>c. find_nz (nz_pos sp) (dep_position i j c) \<noteq> None)
                 (block_coords i j)\<rparr>"

definition subref_nz :: "Sparsity \<Rightarrow> Slice \<Rightarrow> Slice \<Rightarrow> nat list" where
  "subref_nz sp i j =
     List.map_filter (\<lambda>c. find_nz (nz_pos sp) (dep_position i j c)) (block_coords i j)"

text \<open>
  Modelled from the spec: the constructor \<^verbatim>\<open>SubRef::SubRef(const MX& x, const Slice& i,
  const Slice& j)\<close>, whose body is not part of the sources at hand. A selector that
  leaves its axis is a contract violation at construction; an empty selection is a valid
  block of size zero.
\<close>

definition slice_in_range :: "Slice \<Rightarrow> nat \<Rightarrow> bool" where
  "slice_in_range sl len \<longleftrightarrow> 0 < step sl \<and> (\<forall>k \<in> set (slice_indices sl). k < len)"

definition SubRef :: "'mx MX_ops \<Rightarrow> 'mx \<Rightarrow> Slice \<Rightarrow> Slice \<Rightarrow> error + 'mx SubRef" where
  "SubRef ops x i j =
     (if slice_in_range i (size1 (mx_sparsity ops x)) \<and>
         slice_in_range j (size2 (mx_sparsity ops x))
      then Inr \<lparr>dep = x, sparsity = sub_sparsity (mx_sparsity ops x) i j, i_slice = i, j_slice = j\<rparr>
      else Inl AssertionFailed)"

text \<open>The gather of the selected nonzeros, element by element from output index \<open>t\<close> on.\<close>

function gather_loop :: "'a list \<Rightarrow> nat list \<Rightarrow> nat \<Rightarrow> 'a list \<Rightarrow> error + 'a list" where
  "gather_loop arg idx t res =
     (if t < length idx then
        (if idx ! t < length arg \<and> t < length res
         then gather_loop arg idx (Suc t) (res[t := arg ! (idx ! t)])
         else Inl OutOfBounds)
      else Inr res)"
  by pat_completeness auto
termination
  by (relation "measure (\<lambda>(arg, idx, t, res). length idx - t)") auto

declare gather_loop.simps [simp del]

text \<open>
  Modelled from the spec: \<^verbatim>\<open>SubRef::evaluateGen\<close>, declared in the header only. The
  shared contract of numeric evaluation asks for the return on identical input and output
  buffers; otherwise the nonzeros of the dependency lying in the addressed block are
  gathered into the output buffer in the block's row-major order.
\<close>

definition SubRef_evaluateGen ::
  "'mx MX_ops \<Rightarrow> 'mx SubRef \<Rightarrow> addr list \<Rightarrow> addr list \<Rightarrow> (addr \<Rightarrow> 'a list)
     \<Rightarrow> error + (addr \<Rightarrow> 'a list)" where
  "SubRef_evaluateGen ops node input output mem =
     (case (input, output) of
        (i0 # _, o0 # _) \<Rightarrow>
          if i0 = o0 then Inr mem
          else (case gather_loop (mem i0)
                       (subref_nz (mx_sparsity ops (dep node)) (i_slice node) (j_slice node))
                       0 (mem o0) of
                  Inl e \<Rightarrow> Inl e
                | Inr res \<Rightarrow> Inr (mem(o0 := res)))
      | _ \<Rightarrow> Inl OutOfBounds)"

definition SubRef_evaluateD ::
  "'mx MX_ops \<Rightarrow> 'mx SubRef \<Rightarrow> addr list \<Rightarrow> addr list \<Rightarrow> (addr \<Rightarrow> 'double list)
     \<Rightarrow> error + (addr \<Rightarrow> 'double list)" where
  "SubRef_evaluateD ops node input output mem = SubRef_evaluateGen ops node input output mem"

definition SubRef_evaluateSX ::
  "'mx MX_ops \<Rightarrow> 'mx SubRef \<Rightarrow> addr list \<Rightarrow> addr list \<Rightarrow> (addr \<Rightarrow> 'sxelement list)
     \<Rightarrow> error + (addr \<Rightarrow> 'sxelement list)" where
  "SubRef_evaluateSX ops node input output mem = SubRef_evaluateGen ops node input output mem"

text \<open>
  Modelled from the spec: \<^verbatim>\<open>SubRef::evaluateMX\<close>, declared in the header only. Forward
  sensitivities apply the same gather to the forward seeds; adjoint sensitivities scatter
  the adjoint seed into a zero-filled value shaped like the dependency, add it to the
  dependency's slot and clear the seed.
\<close>

function SubRef_fwd_loop ::
  "'mx MX_ops \<Rightarrow> 'mx SubRef \<Rightarrow> addr list list \<Rightarrow> addr list list \<Rightarrow> nat \<Rightarrow> nat
     \<Rightarrow> (addr \<Rightarrow> 'mx) \<Rightarrow> error + (addr \<Rightarrow> 'mx)" where
  "SubRef_fwd_loop ops node fwdSeed fwdSens nfwd d s =
     (if d < nfwd then
        (case (slot0 fwdSens d, slot0 fwdSeed d) of
           (Some sens, Some seed) \<Rightarrow>
             SubRef_fwd_loop ops node fwdSeed fwdSens nfwd (Suc d)
               (s(sens := mx_sub ops (s seed) (i_slice node) (j_slice node)))
         | _ \<Rightarrow> Inl OutOfBounds)
      else Inr s)"
  by pat_completeness auto
termination
  by (relation "measure (\<lambda>(ops, node, fwdSeed, fwdSens, nfwd, d, s). nfwd - d)") auto

declare SubRef_fwd_loop.simps [simp del]

function SubRef_adj_loop ::
  "'mx MX_ops \<Rightarrow> 'mx SubRef \<Rightarrow> addr list list \<Rightarrow> addr list list \<Rightarrow> nat \<Rightarrow> nat
     \<Rightarrow> (addr \<Rightarrow> 'mx) \<Rightarrow> error + (addr \<Rightarrow> 'mx)" where
  "SubRef_adj_loop ops node adjSeed adjSens nadj d s =
     (if d < nadj then
        (case (slot0 adjSeed d, slot0 adjSens d) of
           (Some aseed, Some asens) \<Rightarrow>
             SubRef_adj_loop ops node adjSeed adjSens nadj (Suc d)
               ((s(asens := mx_addToSum ops (s asens)
                              (mx_scatter ops (s aseed) (mx_sparsity ops (dep node))
                                 (i_slice node) (j_slice node))))
                 (aseed := mx_empty ops))
         | _ \<Rightarrow> Inl OutOfBounds)
      else Inr s)"
  by pat_completeness auto
termination
  by (relation "measure (\<lambda>(ops, node, adjSeed, adjSens, nadj, d, s). nadj - d)") auto

declare SubRef_adj_loop.simps [simp del]

definition SubRef_evaluateMX ::
  "'mx MX_ops \<Rightarrow> 'mx SubRef \<Rightarrow> addr list \<Rightarrow> addr list \<Rightarrow> addr list list \<Rightarrow> addr list list
     \<Rightarrow> addr list list \<Rightarrow> addr list list \<Rightarrow> bool \<Rightarrow> (addr \<Rightarrow> 'mx) \<Rightarrow> error + (addr \<Rightarrow> 'mx)" where
  "SubRef_evaluateMX ops node input output fwdSeed fwdSens adjSeed adjSens output_given s =
     (case (input, output) of
        (i0 # _, o0 # _) \<Rightarrow>
          if i0 = o0 then Inr s
          else
            (case SubRef_fwd_loop ops node fwdSeed fwdSens (length fwdSens) 0
                    (if \<not> output_given
                     then s(o0 := mx_sub ops (s i0) (i_slice node) (j_slice node))
                     else s) of
               Inl e \<Rightarrow> Inl e
             | Inr s' \<Rightarrow> SubRef_adj_loop ops node adjSeed adjSens (length adjSeed) 0 s')
      | _ \<Rightarrow> Inl OutOfBounds)"

section \<open>Values of expressions\<close>

text \<open>
  Modelled from the spec: what the expression operations compute, which the sources at
  hand do not contain. An expression evaluates to a pattern and its sequence of nonzero
  values. Reshaping keeps the sequence and changes the declared shape; adding to a sum
  treats the empty expression as zero; the sub-block gathers and the scatter places the
  seed's entries into zeros.
\<close>

record Matrix =
  m_sp :: Sparsity
  m_nz :: "real list"

definition reshape_sparsity :: "Sparsity \<Rightarrow> nat \<times> nat \<Rightarrow> Sparsity" where
  "reshape_sparsity sp sh =
     \<lparr>size1 = fst sh, size2 = snd sh,
      nz_pos = map (\<lambda>(r, c). ((r + c * size1 sp) mod fst sh, (r + c * size1 sp) div fst sh))
                 (nz_pos sp)\<rparr>"

text \<open>The position that the reshape gives to a position: the same column-major index.\<close>

definition reshape_pos :: "nat \<Rightarrow> nat \<Rightarrow> nat \<times> nat \<Rightarrow> nat \<times> nat" where
  "reshape_pos s n p = ((fst p + snd p * s) mod n, (fst p + snd p * s) div n)"

definition val_empty :: Matrix where
  "val_empty = \<lparr>m_sp = \<lparr>size1 = 0, size2 = 0, nz_pos = []\<rparr>, m_nz = []\<rparr>"

definition val_reshape :: "Matrix \<Rightarrow> nat \<times> nat \<Rightarrow> Matrix" where
  "val_reshape x sh = \<lparr>m_sp = reshape_sparsity (m_sp x) sh, m_nz = m_nz x\<rparr>"

definition val_addToSum :: "Matrix \<Rightarrow> Matrix \<Rightarrow> Matrix" where
  "val_addToSum a y =
     (if shape (m_sp a) = (0, 0) then y
      else \<lparr>m_sp = m_sp a, m_nz = map2 (+) (m_nz a) (m_nz y)\<rparr>)"

definition val_sub :: "Matrix \<Rightarrow> Slice \<Rightarrow> Slice \<Rightarrow> Matrix" where
  "val_sub x i j =
     \<lparr>m_sp = sub_sparsity (m_sp x) i j, m_nz = map ((!) (m_nz x)) (subref_nz (m_sp x) i j)\<rparr>"

text \<open>
  A pattern is well formed when no position is listed twice and every position lies
  within the extents.
\<close>

definition wf_sparsity :: "Sparsity \<Rightarrow> bool" where
  "wf_sparsity sp \<longleftrightarrow>
     distinct (nz_pos sp) \<and> (\<forall>p \<in> set (nz_pos sp). fst p < size1 sp \<and> snd p < size2 sp)"

text \<open>
  The entry of a matrix at a position: the stored value when the position is a structural
  nonzero, zero otherwise. The inner product of two matrices of one shape is the sum,
  over every position of that shape, of the product of their entries; it does not depend
  on how either matrix stores its nonzeros.
\<close>

definition entry :: "Matrix \<Rightarrow> nat \<times> nat \<Rightarrow> real" where
  "entry A p =
     (case find_nz (nz_pos (m_sp A)) p of
        None \<Rightarrow> 0
      | Some k \<Rightarrow> if k < length (m_nz A) then m_nz A ! k else 0)"

definition inner_product :: "Matrix \<Rightarrow> Matrix \<Rightarrow> real" where
  "inner_product A B =
     (\<Sum>p \<leftarrow> List.product [0 ..< size1 (m_sp A)] [0 ..< size2 (m_sp A)]. entry A p * entry B p)"

text \<open>
  The scatter: a value with the dependency's pattern that holds, at each structural
  nonzero, the entry of the seed at the block coordinate which the two selectors map to
  that position, and zero where no block coordinate is mapped to it.
\<close>

definition val_scatter :: "Matrix \<Rightarrow> Sparsity \<Rightarrow> Slice \<Rightarrow> Slice \<Rightarrow> Matrix" where
  "val_scatter y sp i j =
     \<lparr>m_sp = sp,
      m_nz = map (\<lambda>q. case List.find (\<lambda>c. dep_position i j c = q) (block_coords i j) of
                        None \<Rightarrow> 0
                      | Some c \<Rightarrow> entry y c)
                 (nz_pos sp)\<rparr>"

definition val_ops :: "Matrix MX_ops" where
  "val_ops = \<lparr>mx_sparsity = m_sp, mx_empty = val_empty, mx_reshape = val_reshape,
              mx_addToSum = val_addToSum, mx_sub = val_sub, mx_scatter = val_scatter\<rparr>"

text \<open>Row-major order of block coordinates: by row, then by column.\<close>

definition row_major :: "nat \<times> nat \<Rightarrow> nat \<times> nat \<Rightarrow> bool" where
  "row_major p q \<longleftrightarrow> fst p < fst q \<or> (fst p = fst q \<and> snd p < snd q)"

section \<open>Example patterns\<close>

text \<open>
  Modelled from the spec: the dense pattern with every entry structurally nonzero, stored
  column by column (\<^verbatim>\<open>Sparsity::dense\<close> is not part of the sources at hand).
\<close>

definition dense_sparsity :: "nat \<Rightarrow> nat \<Rightarrow> Sparsity" where
  "dense_sparsity n m =
     \<lparr>size1 = n, size2 = m, nz_pos = map (\<lambda>(c, r). (r, c)) (List.product [0 ..< m] [0 ..< n])\<rparr>"

text \<open>
  The entries of a matrix row by row, a structural zero read as \<open>0\<close>: the way a block
  such as \<open>[[4, 5], [8, 9]]\<close> is written down.
\<close>

definition dense_rows :: "Sparsity \<Rightarrow> real list \<Rightarrow> real list list" where
  "dense_rows sp d =
     map (\<lambda>r. map (\<lambda>c. case find_nz (nz_pos sp) (r, c) of None \<Rightarrow> 0 | Some k \<Rightarrow> d ! k)
                  [0 ..< size2 sp])
         [0 ..< size1 sp]"

section \<open>Properties of the loops\<close>

lemma upt_2 [simp]: "[0 ..< 2] = [0, Suc 0]"
  by (simp add: numeral_2_eq_2)

lemma upt_3 [simp]: "[0 ..< 3] = [0, 1, 2]"
  by (simp add: numeral_3_eq_3)

text \<open>A copy of \<open>n\<close> elements within both buffers replaces the first \<open>n\<close> elements.\<close>

lemma std_copy_take_drop:
  "k \<le> n \<Longrightarrow> n \<le> length arg \<Longrightarrow> n \<le> length res \<Longrightarrow>
   std_copy arg k n res = Inr (take k res @ take (n - k) (drop k arg) @ drop n res)"
proof (induction arg k n res rule: std_copy.induct)
  case (1 arg k n res)
  show ?case
  proof (cases "k < n")
    case False
    with "1.prems" show ?thesis by (simp add: std_copy.simps)
  next
    case True
    with "1.prems" have kl: "k < length arg" "k < length res" by simp_all
    have step: "std_copy arg k n res = std_copy arg (Suc k) n (res[k := arg ! k])"
      using True kl by (subst std_copy.simps) simp
    have ih: "std_copy arg (Suc k) n (res[k := arg ! k]) =
        Inr (take (Suc k) (res[k := arg ! k]) @ take (n - Suc k) (drop (Suc k) arg)
               @ drop n (res[k := arg ! k]))"
      using "1.IH" True kl "1.prems" by simp
    have a: "take (Suc k) (res[k := arg ! k]) = take k res @ [arg ! k]"
      using kl by (simp add: take_Suc_conv_app_nth)
    have b: "drop n (res[k := arg ! k]) = drop n res"
      using True by simp
    have c: "take (n - k) (drop k arg) = arg ! k # take (n - Suc k) (drop (Suc k) arg)"
      using True kl by (metis Cons_nth_drop_Suc Suc_diff_Suc take_Suc_Cons)
    show ?thesis by (simp add: step ih a b c)
  qed
qed

lemma std_copy_all:
  "n \<le> length arg \<Longrightarrow> n \<le> length res \<Longrightarrow> std_copy arg 0 n res = Inr (take n arg @ drop n res)"
  using std_copy_take_drop [of 0 n arg res] by simp

lemma bwd_loop_result:
  "k \<le> n \<Longrightarrow> n \<le> length arg \<Longrightarrow> n \<le> length res \<Longrightarrow>
   bwd_loop arg res n k =
     Inr (take k arg @ map2 (OR) (take (n - k) (drop k arg)) (take (n - k) (drop k res))
            @ drop n arg,
          take k res @ replicate (n - k) 0 @ drop n res)"
proof (induction arg res n k rule: bwd_loop.induct)
  case (1 arg res n k)
  show ?case
  proof (cases "k < n")
    case False
    with "1.prems" show ?thesis by (simp add: bwd_loop.simps)
  next
    case True
    with "1.prems" have kl: "k < length arg" "k < length res" by simp_all
    have step: "bwd_loop arg res n k =
                bwd_loop (arg[k := arg ! k OR res ! k]) (res[k := 0]) n (Suc k)"
      using True kl by (subst bwd_loop.simps) simp
    let ?a = "arg[k := arg ! k OR res ! k]" and ?r = "res[k := 0]"
    have ih: "bwd_loop ?a ?r n (Suc k) =
       Inr (take (Suc k) ?a
              @ map2 (OR) (take (n - Suc k) (drop (Suc k) ?a)) (take (n - Suc k) (drop (Suc k) ?r))
              @ drop n ?a,
          take (Suc k) ?r @ replicate (n - Suc k) 0 @ drop n ?r)"
      using "1.IH" True kl "1.prems" by simp
    have a1: "take (Suc k) ?a = take k arg @ [arg ! k OR res ! k]"
      using kl by (simp add: take_Suc_conv_app_nth)
    have r1: "take (Suc k) ?r = take k res @ [0]"
      using kl by (simp add: take_Suc_conv_app_nth)
    have a2: "drop (Suc k) ?a = drop (Suc k) arg" "drop n ?a = drop n arg"
      using True by simp_all
    have r2: "drop (Suc k) ?r = drop (Suc k) res" "drop n ?r = drop n res"
      using True by simp_all
    have ca: "take (n - k) (drop k arg) = arg ! k # take (n - Suc k) (drop (Suc k) arg)"
      using True kl by (metis Cons_nth_drop_Suc Suc_diff_Suc take_Suc_Cons)
    have cr: "take (n - k) (drop k res) = res ! k # take (n - Suc k) (drop (Suc k) res)"
      using True kl by (metis Cons_nth_drop_Suc Suc_diff_Suc take_Suc_Cons)
    have rep: "replicate (n - k) (0::bvec_t) = 0 # replicate (n - Suc k) 0"
      using True by (metis Suc_diff_Suc replicate_Suc)
    show ?thesis by (simp add: step ih a1 r1 a2 r2 ca cr rep)
  qed
qed

lemma evaluateGen_copies:
  assumes "input = ia # ins" "output = oa # outs" "ia \<noteq> oa"
    and "nnz (sparsity node) \<le> length (mem ia)" "nnz (sparsity node) \<le> length (mem oa)"
  shows "evaluateGen node input output mem =
           Inr (mem(oa := take (nnz (sparsity node)) (mem ia)
                            @ drop (nnz (sparsity node)) (mem oa)))"
  using assms by (simp add: evaluateGen_def std_copy_all)

section \<open>Reshape: construction\<close>

text \<open>
  Claim C4. Constructing a Reshape node from a dependency \<open>x\<close> and a pattern \<open>sp\<close>
  fails with the assertion's exception, and builds no node, whenever the nonzero counts
  of \<open>x\<close> and \<open>sp\<close> differ; when they are equal it succeeds, and the node built has
  sparsity \<open>sp\<close> and dependency \<open>x\<close>.
\<close>

theorem Reshape_construction:
  "(mx_nnz ops x \<noteq> nnz sp \<longrightarrow> Reshape ops x sp = Inl AssertionFailed) \<and>
   (mx_nnz ops x = nnz sp \<longrightarrow>
      (\<exists>node. Reshape ops x sp = Inr node \<and> sparsity node = sp \<and> dep node = x))"
  by (simp add: Reshape_def)

theorem Reshape_construction_witness:
  "Reshape val_ops \<lparr>m_sp = dense_sparsity 2 3, m_nz = [1, 2, 3, 4, 5, 6]\<rparr> (dense_sparsity 2 2)
     = Inl AssertionFailed \<and>
   (\<exists>node. Reshape val_ops \<lparr>m_sp = dense_sparsity 2 3, m_nz = [1, 2, 3, 4, 5, 6]\<rparr>
              (dense_sparsity 3 2) = Inr node \<and> sparsity node = dense_sparsity 3 2)"
  using Reshape_construction [of val_ops "\<lparr>m_sp = dense_sparsity 2 3, m_nz = [1, 2, 3, 4, 5, 6]\<rparr>"
          "dense_sparsity 2 2"]
        Reshape_construction [of val_ops "\<lparr>m_sp = dense_sparsity 2 3, m_nz = [1, 2, 3, 4, 5, 6]\<rparr>"
          "dense_sparsity 3 2"]
  by (auto simp: mx_nnz_def nnz_def val_ops_def dense_sparsity_def)

section \<open>Reshape: numeric and symbolic-scalar evaluation\<close>

text \<open>
  Claim C3. For a Reshape node built from \<open>x\<close> and \<open>sp\<close>, and input and output buffers
  at different addresses that hold at least \<open>nnz sp\<close> elements each, numeric evaluation
  and symbolic-scalar evaluation both succeed; afterwards the first \<open>nnz sp\<close> elements
  of the output buffer are the first \<open>nnz sp\<close> elements of the input buffer in the same
  order, the rest of the output buffer is as before, and so is every other buffer.
\<close>

theorem Reshape_evaluate_positional_copy:
  assumes "Reshape ops x sp = Inr node"
    and "input = ia # ins" "output = oa # outs" "ia \<noteq> oa"
    and "nnz sp \<le> length (memD ia)" "nnz sp \<le> length (memD oa)"
    and "nnz sp \<le> length (memS ia)" "nnz sp \<le> length (memS oa)"
  shows "(\<exists>mem'. evaluateD node input output memD = Inr mem' \<and>
            take (nnz sp) (mem' oa) = take (nnz sp) (memD ia) \<and>
            drop (nnz sp) (mem' oa) = drop (nnz sp) (memD oa) \<and>
            (\<forall>a. a \<noteq> oa \<longrightarrow> mem' a = memD a)) \<and>
         (\<exists>mem'. evaluateSX node input output memS = Inr mem' \<and>
            take (nnz sp) (mem' oa) = take (nnz sp) (memS ia) \<and>
            drop (nnz sp) (mem' oa) = drop (nnz sp) (memS oa) \<and>
            (\<forall>a. a \<noteq> oa \<longrightarrow> mem' a = memS a))"
proof -
  from assms(1) have sp: "sparsity node = sp"
    by (auto simp: Reshape_def split: if_splits)
  have d: "evaluateD node input output memD =
      Inr (memD(oa := take (nnz sp) (memD ia) @ drop (nnz sp) (memD oa)))"
    unfolding evaluateD_def using evaluateGen_copies [OF assms(2,3,4), of node memD] assms(5,6) sp
    by simp
  have s: "evaluateSX node input output memS =
      Inr (memS(oa := take (nnz sp) (memS ia) @ drop (nnz sp) (memS oa)))"
    unfolding evaluateSX_def using evaluateGen_copies [OF assms(2,3,4), of node memS] assms(7,8) sp
    by simp
  show ?thesis using assms(5-8) by (simp add: d s)
qed

theorem Reshape_evaluate_positional_copy_witness:
  "(\<exists>mem'. evaluateD \<lparr>dep = \<lparr>m_sp = dense_sparsity 2 3, m_nz = [0, 0, 0, 0, 0, 0]\<rparr>,
                       sparsity = dense_sparsity 3 2\<rparr> [0] [1]
              ((\<lambda>a. [])(0 := [1, 2, 3, 4, 5, 6 :: real], 1 := [0, 0, 0, 0, 0, 0])) = Inr mem' \<and>
            mem' 1 = [1, 2, 3, 4, 5, 6] \<and> mem' 0 = [1, 2, 3, 4, 5, 6]) \<and>
   (\<exists>mem'. evaluateSX \<lparr>dep = \<lparr>m_sp = dense_sparsity 2 3, m_nz = [0, 0, 0, 0, 0, 0]\<rparr>,
                       sparsity = dense_sparsity 3 2\<rparr> [0] [1]
              ((\<lambda>a. [])(0 := [''a'', ''b'', ''c'', ''d'', ''e'', ''f''],
                          1 := [''0'', ''0'', ''0'', ''0'', ''0'', ''0''])) = Inr mem' \<and>
            mem' 1 = [''a'', ''b'', ''c'', ''d'', ''e'', ''f''] \<and>
            mem' 0 = [''a'', ''b'', ''c'', ''d'', ''e'', ''f''])"
proof -
  let ?x = "\<lparr>m_sp = dense_sparsity 2 3, m_nz = [0, 0, 0, 0, 0, 0]\<rparr>"
  let ?node = "\<lparr>dep = ?x, sparsity = dense_sparsity 3 2\<rparr>"
  let ?memD = "(\<lambda>a::addr. [])(0 := [1, 2, 3, 4, 5, 6 :: real], 1 := [0, 0, 0, 0, 0, 0])"
  let ?memS = "(\<lambda>a::addr. [])(0 := [''a'', ''b'', ''c'', ''d'', ''e'', ''f''],
                          1 := [''0'', ''0'', ''0'', ''0'', ''0'', ''0''])"
  have n: "nnz (dense_sparsity 3 2) = 6" "nnz (dense_sparsity 2 3) = 6"
    by (simp_all add: nnz_def dense_sparsity_def)
  have c: "Reshape val_ops ?x (dense_sparsity 3 2) = Inr ?node"
    by (simp add: Reshape_def mx_nnz_def val_ops_def n)
  have t: "(\<exists>mem'. evaluateD ?node [0] [1] ?memD = Inr mem' \<and>
            take (nnz (dense_sparsity 3 2)) (mem' 1) = take (nnz (dense_sparsity 3 2)) (?memD 0) \<and>
            drop (nnz (dense_sparsity 3 2)) (mem' 1) = drop (nnz (dense_sparsity 3 2)) (?memD 1) \<and>
            (\<forall>a. a \<noteq> 1 \<longrightarrow> mem' a = ?memD a)) \<and>
         (\<exists>mem'. evaluateSX ?node [0] [1] ?memS = Inr mem' \<and>
            take (nnz (dense_sparsity 3 2)) (mem' 1) = take (nnz (dense_sparsity 3 2)) (?memS 0) \<and>
            drop (nnz (dense_sparsity 3 2)) (mem' 1) = drop (nnz (dense_sparsity 3 2)) (?memS 1) \<and>
            (\<forall>a. a \<noteq> 1 \<longrightarrow> mem' a = ?memS a))"
    by (rule Reshape_evaluate_positional_copy [OF c, where ins = "[]" and outs = "[]"
          and ia = 0 and oa = 1
          and memD = "(\<lambda>a. [])(0 := [1, 2, 3, 4, 5, 6 :: real], 1 := [0, 0, 0, 0, 0, 0])"
          and memS = "(\<lambda>a. [])(0 := [''a'', ''b'', ''c'', ''d'', ''e'', ''f''],
                          1 := [''0'', ''0'', ''0'', ''0'', ''0'', ''0''])"])
       (simp_all add: n)
  from t obtain mD where d1: "evaluateD ?node [0] [1] ?memD = Inr mD"
    and d2: "take (nnz (dense_sparsity 3 2)) (mD 1) = take (nnz (dense_sparsity 3 2)) (?memD 0)"
    and d3: "drop (nnz (dense_sparsity 3 2)) (mD 1) = drop (nnz (dense_sparsity 3 2)) (?memD 1)"
    and d4: "\<forall>a. a \<noteq> 1 \<longrightarrow> mD a = ?memD a"
    by blast
  from t obtain mS where s1: "evaluateSX ?node [0] [1] ?memS = Inr mS"
    and s2: "take (nnz (dense_sparsity 3 2)) (mS 1) = take (nnz (dense_sparsity 3 2)) (?memS 0)"
    and s3: "drop (nnz (dense_sparsity 3 2)) (mS 1) = drop (nnz (dense_sparsity 3 2)) (?memS 1)"
    and s4: "\<forall>a. a \<noteq> 1 \<longrightarrow> mS a = ?memS a"
    by blast
  have "mD 1 = take 6 (mD 1) @ drop 6 (mD 1)" by simp
  also have "\<dots> = [1, 2, 3, 4, 5, 6]" using d2 d3 unfolding n by simp
  finally have dv: "mD 1 = [1, 2, 3, 4, 5, 6]" .
  have "mS 1 = take 6 (mS 1) @ drop 6 (mS 1)" by simp
  also have "\<dots> = [''a'', ''b'', ''c'', ''d'', ''e'', ''f'']" using s2 s3 unfolding n by simp
  finally have sv: "mS 1 = [''a'', ''b'', ''c'', ''d'', ''e'', ''f'']" .
  from d4 have di: "mD 0 = [1, 2, 3, 4, 5, 6]" by simp
  from s4 have si: "mS 0 = [''a'', ''b'', ''c'', ''d'', ''e'', ''f'']" by simp
  show ?thesis using d1 dv di s1 sv si by simp
qed

text \<open>
  Claim C5. When the output buffer pointer equals the input buffer pointer, numeric
  evaluation and symbolic-scalar evaluation return at once: the store after the call is
  the store before it, whatever the buffers hold.
\<close>

theorem Reshape_evaluate_inplace:
  assumes "input = ia # ins" "output = oa # outs" "ia = oa"
  shows "evaluateD node input output memD = Inr memD \<and>
         evaluateSX node input output memS = Inr memS"
  using assms by (simp add: evaluateD_def evaluateSX_def evaluateGen_def)

theorem Reshape_evaluate_inplace_witness:
  "evaluateD \<lparr>dep = (), sparsity = dense_sparsity 3 2\<rparr> [0] [0]
      ((\<lambda>a. [])(0 := [1, 2, 3, 4, 5, 6 :: real])) = Inr ((\<lambda>a. [])(0 := [1, 2, 3, 4, 5, 6])) \<and>
   evaluateSX \<lparr>dep = (), sparsity = dense_sparsity 3 2\<rparr> [0] [0]
      ((\<lambda>a. [])(0 := [''x'', ''y''])) = Inr ((\<lambda>a. [])(0 := [''x'', ''y'']))"
  using Reshape_evaluate_inplace [of "[0]" 0 "[]" "[0]" 0 "[]"
          "\<lparr>dep = (), sparsity = dense_sparsity 3 2\<rparr>" "(\<lambda>a. [])(0 := [1, 2, 3, 4, 5, 6 :: real])"
          "(\<lambda>a. [])(0 := [''x'', ''y''])"]
  by simp

section \<open>Reshape: sparsity propagation\<close>

text \<open>
  Claim C7. With input and output tag-bit buffers at different addresses and of the same
  length (both hold one entry per nonzero), forward propagation succeeds; afterwards the
  output buffer equals the input buffer element for element, and the input buffer and
  every other buffer are unchanged.
\<close>

theorem propagateSparsity_forward_copy:
  assumes "input = ia # ins" "output = oa # outs" "ia \<noteq> oa"
    and "length (mem ia) = length (mem oa)"
  shows "\<exists>mem'. propagateSparsity node input output True mem = Inr mem' \<and>
           mem' oa = mem ia \<and> mem' ia = mem ia \<and> (\<forall>a. a \<noteq> oa \<longrightarrow> mem' a = mem a)"
  using assms by (simp add: propagateSparsity_def std_copy_all)

theorem propagateSparsity_forward_copy_witness:
  "\<exists>mem'. propagateSparsity \<lparr>dep = (), sparsity = dense_sparsity 3 1\<rparr> [0] [1] True
             ((\<lambda>a. [])(0 := [5, 0, 9], 1 := [1, 1, 1])) = Inr mem' \<and>
           mem' 1 = [5, 0, 9] \<and> mem' 0 = [5, 0, 9]"
  using propagateSparsity_forward_copy [of "[0]" 0 "[]" "[1]" 1 "[]"
          "(\<lambda>a. [])(0 := [5, 0, 9], 1 := [1, 1, 1])" "\<lparr>dep = (), sparsity = dense_sparsity 3 1\<rparr>"]
  by auto

text \<open>
  Claim C8. With input and output tag-bit buffers at different addresses and of the same
  length, backward propagation succeeds; afterwards, at every position \<open>k\<close>, the
  dependency's tag bits are the bitwise OR of their previous value with the output's tag
  bits at \<open>k\<close>, and the output's tag bits at \<open>k\<close> are zero. Both buffers keep their
  length and no other buffer changes.
\<close>

theorem propagateSparsity_backward_or_clear:
  assumes "input = ia # ins" "output = oa # outs" "ia \<noteq> oa"
    and "length (mem ia) = length (mem oa)"
  shows "\<exists>mem'. propagateSparsity node input output False mem = Inr mem' \<and>
           length (mem' ia) = length (mem ia) \<and> length (mem' oa) = length (mem oa) \<and>
           (\<forall>k < length (mem ia). mem' ia ! k = mem ia ! k OR mem oa ! k \<and> mem' oa ! k = 0) \<and>
           (\<forall>a. a \<noteq> ia \<and> a \<noteq> oa \<longrightarrow> mem' a = mem a)"
  using assms by (simp add: propagateSparsity_def bwd_loop_result)

theorem propagateSparsity_backward_or_clear_witness:
  "\<exists>mem'. propagateSparsity \<lparr>dep = (), sparsity = dense_sparsity 3 1\<rparr> [0] [1] False
             ((\<lambda>a. [])(0 := [4, 0, 1], 1 := [1, 2, 1])) = Inr mem' \<and>
           mem' 0 ! 0 = 5 \<and> mem' 0 ! 1 = 2 \<and> mem' 0 ! 2 = 1 \<and>
           mem' 1 ! 0 = 0 \<and> mem' 1 ! 1 = 0 \<and> mem' 1 ! 2 = 0"
proof -
  let ?mem = "(\<lambda>a::addr. [])(0 := [4, 0, 1], 1 := [1, 2, 1 :: bvec_t])"
  let ?node = "\<lparr>dep = (), sparsity = dense_sparsity 3 1\<rparr>"
  have "\<exists>mem'. propagateSparsity ?node [0] [1] False ?mem = Inr mem' \<and>
           length (mem' 0) = length (?mem 0) \<and> length (mem' 1) = length (?mem 1) \<and>
           (\<forall>k < length (?mem 0). mem' 0 ! k = ?mem 0 ! k OR ?mem 1 ! k \<and> mem' 1 ! k = 0) \<and>
           (\<forall>a. a \<noteq> 0 \<and> a \<noteq> 1 \<longrightarrow> mem' a = ?mem a)"
    by (rule propagateSparsity_backward_or_clear [where ins = "[]" and outs = "[]"
          and ia = 0 and oa = 1
          and mem = "(\<lambda>a. [])(0 := [4, 0, 1], 1 := [1, 2, 1 :: bvec_t])"])
       simp_all
  then obtain m where r: "propagateSparsity ?node [0] [1] False ?mem = Inr m"
    and k: "\<forall>k < length (?mem 0). m 0 ! k = ?mem 0 ! k OR ?mem 1 ! k \<and> m 1 ! k = 0"
    by blast
  from k have "m 0 ! 0 = ?mem 0 ! 0 OR ?mem 1 ! 0 \<and> m 1 ! 0 = 0"
    and "m 0 ! 1 = ?mem 0 ! 1 OR ?mem 1 ! 1 \<and> m 1 ! 1 = 0"
    and "m 0 ! 2 = ?mem 0 ! 2 OR ?mem 1 ! 2 \<and> m 1 ! 2 = 0"
    by simp_all
  then show ?thesis using r by simp
qed

section \<open>Reshape: symbolic-graph evaluation\<close>

text \<open>
  Claim C10. When the input slot pointer equals the output slot pointer, the
  symbolic-graph evaluation returns at once with the store it was given: the output
  expression is not written, also when \<open>output_given\<close> is false, and no seed or
  sensitivity slot of any direction is written, added to or cleared.
\<close>

theorem Reshape_evaluateMX_inplace:
  assumes "input = ia # ins" "output = oa # outs" "ia = oa"
  shows "evaluateMX ops node input output fwdSeed fwdSens adjSeed adjSens output_given s = Inr s"
  using assms by (simp add: evaluateMX_def)

theorem Reshape_evaluateMX_inplace_witness:
  "evaluateMX val_ops \<lparr>dep = val_empty, sparsity = dense_sparsity 3 2\<rparr> [7] [7]
      [[1]] [[2]] [[3]] [[4]] False (\<lambda>a. \<lparr>m_sp = dense_sparsity 2 3, m_nz = [1, 2, 3, 4, 5, 6]\<rparr>)
    = Inr (\<lambda>a. \<lparr>m_sp = dense_sparsity 2 3, m_nz = [1, 2, 3, 4, 5, 6]\<rparr>)"
  by (rule Reshape_evaluateMX_inplace [where ia = 7 and oa = 7 and ins = "[]" and outs = "[]"])
     simp_all

text \<open>
  When the two pointers differ and the slots are laid out properly, both loops run to
  their end; each writes only its own slots.
\<close>

lemma slot0_Some:
  "d < length v \<Longrightarrow> [] \<notin> set v \<Longrightarrow> slot0 v d = Some (slots0 v ! d)"
  by (cases "v ! d") (auto simp: slot0_def slots0_def dest: nth_mem)

lemma nth_notin_drop_Suc:
  "distinct xs \<Longrightarrow> d < length xs \<Longrightarrow> xs ! d \<notin> set (drop (Suc d) xs)"
  by (metis Cons_nth_drop_Suc distinct.simps(2) distinct_drop)

lemma set_drop_Suc_subset:
  "d < length xs \<Longrightarrow> set (drop d xs) = insert (xs ! d) (set (drop (Suc d) xs))"
  by (metis Cons_nth_drop_Suc list.simps(15))

lemma fwd_loop_result:
  assumes "nfwd = length fwdSens" "length fwdSeed = length fwdSens"
    and "[] \<notin> set fwdSeed" "[] \<notin> set fwdSens" "d \<le> nfwd"
    and "distinct (slots0 fwdSens)" "set (slots0 fwdSeed) \<inter> set (slots0 fwdSens) = {}"
  shows "\<exists>s'. fwd_loop ops node fwdSeed fwdSens nfwd d s = Inr s' \<and>
           (\<forall>a. a \<notin> set (drop d (slots0 fwdSens)) \<longrightarrow> s' a = s a) \<and>
           (\<forall>e. d \<le> e \<and> e < nfwd \<longrightarrow>
                s' (slots0 fwdSens ! e) =
                  mx_reshape ops (s (slots0 fwdSeed ! e)) (shape (sparsity node)))"
  using assms
proof (induction ops node fwdSeed fwdSens nfwd d s rule: fwd_loop.induct)
  case (1 ops node fwdSeed fwdSens nfwd d s)
  let ?sens = "slots0 fwdSens" and ?seed = "slots0 fwdSeed"
  have len: "length ?sens = nfwd" "length ?seed = nfwd"
    using "1.prems" by (simp_all add: slots0_def)
  show ?case
  proof (cases "d < nfwd")
    case False
    with "1.prems" show ?thesis by (auto simp: fwd_loop.simps)
  next
    case True
    let ?s1 = "s(?sens ! d := mx_reshape ops (s (?seed ! d)) (shape (sparsity node)))"
    have sl: "slot0 fwdSens d = Some (?sens ! d)" "slot0 fwdSeed d = Some (?seed ! d)"
      using True "1.prems" by (simp_all add: slot0_Some)
    have step: "fwd_loop ops node fwdSeed fwdSens nfwd d s =
                fwd_loop ops node fwdSeed fwdSens nfwd (Suc d) ?s1"
      using True sl by (subst fwd_loop.simps) simp
    have "Suc d \<le> nfwd" using True by simp
    from "1.IH" [OF True refl sl "1.prems"(1-4) this "1.prems"(6,7)]
    obtain s' where r: "fwd_loop ops node fwdSeed fwdSens nfwd (Suc d) ?s1 = Inr s'"
      and fr: "\<forall>a. a \<notin> set (drop (Suc d) ?sens) \<longrightarrow> s' a = ?s1 a"
      and vl: "\<forall>e. Suc d \<le> e \<and> e < nfwd \<longrightarrow>
                s' (?sens ! e) = mx_reshape ops (?s1 (?seed ! e)) (shape (sparsity node))"
      by blast
    have nd: "?sens ! d \<notin> set (drop (Suc d) ?sens)"
      using "1.prems" True len by (simp add: nth_notin_drop_Suc)
    have seed_ne: "?seed ! e \<noteq> ?sens ! d" if "e < nfwd" for e
      using "1.prems"(7) that True len by (metis disjoint_iff nth_mem)
    have frame: "\<forall>a. a \<notin> set (drop d ?sens) \<longrightarrow> s' a = s a"
      using fr True len by (simp add: set_drop_Suc_subset)
    have here: "s' (?sens ! d) = mx_reshape ops (s (?seed ! d)) (shape (sparsity node))"
      using fr nd by simp
    have later: "s' (?sens ! e) = mx_reshape ops (s (?seed ! e)) (shape (sparsity node))"
      if "Suc d \<le> e" "e < nfwd" for e
      using vl that seed_ne [of e] by simp
    have "\<forall>e. d \<le> e \<and> e < nfwd \<longrightarrow>
            s' (?sens ! e) = mx_reshape ops (s (?seed ! e)) (shape (sparsity node))"
      using here later by (metis Suc_leI le_neq_implies_less)
    with r frame show ?thesis by (simp add: step)
  qed
qed

lemma adj_loop_result:
  assumes "nadj = length adjSeed" "length adjSens = length adjSeed"
    and "[] \<notin> set adjSeed" "[] \<notin> set adjSens" "d \<le> nadj"
    and "distinct (slots0 adjSens @ slots0 adjSeed)"
  shows "\<exists>s'. adj_loop ops node adjSeed adjSens nadj d s = Inr s' \<and>
           (\<forall>a. a \<notin> set (drop d (slots0 adjSens)) \<and> a \<notin> set (drop d (slots0 adjSeed))
                \<longrightarrow> s' a = s a) \<and>
           (\<forall>e. d \<le> e \<and> e < nadj \<longrightarrow>
                s' (slots0 adjSens ! e) =
                  mx_addToSum ops (s (slots0 adjSens ! e))
                    (mx_reshape ops (s (slots0 adjSeed ! e)) (mx_shape ops (dep node))) \<and>
                s' (slots0 adjSeed ! e) = mx_empty ops)"
  using assms
proof (induction ops node adjSeed adjSens nadj d s rule: adj_loop.induct)
  case (1 ops node adjSeed adjSens nadj d s)
  let ?sens = "slots0 adjSens" and ?seed = "slots0 adjSeed"
  have len: "length ?sens = nadj" "length ?seed = nadj"
    using "1.prems" by (simp_all add: slots0_def)
  have dist: "distinct ?sens" "distinct ?seed" "set ?sens \<inter> set ?seed = {}"
    using "1.prems"(6) by simp_all
  show ?case
  proof (cases "d < nadj")
    case False
    with "1.prems" show ?thesis by (auto simp: adj_loop.simps)
  next
    case True
    let ?v = "mx_addToSum ops (s (?sens ! d))
                (mx_reshape ops (s (?seed ! d)) (mx_shape ops (dep node)))"
    let ?s1 = "(s(?sens ! d := ?v))(?seed ! d := mx_empty ops)"
    have sl: "slot0 adjSeed d = Some (?seed ! d)" "slot0 adjSens d = Some (?sens ! d)"
      using True "1.prems" by (simp_all add: slot0_Some)
    have step: "adj_loop ops node adjSeed adjSens nadj d s =
                adj_loop ops node adjSeed adjSens nadj (Suc d) ?s1"
      using True sl by (subst adj_loop.simps) simp
    have "Suc d \<le> nadj" using True by simp
    from "1.IH" [OF True refl sl "1.prems"(1-4) this "1.prems"(6)]
    obtain s' where r: "adj_loop ops node adjSeed adjSens nadj (Suc d) ?s1 = Inr s'"
      and fr: "\<forall>a. a \<notin> set (drop (Suc d) ?sens) \<and> a \<notin> set (drop (Suc d) ?seed)
                 \<longrightarrow> s' a = ?s1 a"
      and vl: "\<forall>e. Suc d \<le> e \<and> e < nadj \<longrightarrow>
                s' (?sens ! e) =
                  mx_addToSum ops (?s1 (?sens ! e))
                    (mx_reshape ops (?s1 (?seed ! e)) (mx_shape ops (dep node))) \<and>
                s' (?seed ! e) = mx_empty ops"
      by blast
    have cross: "?sens ! e \<noteq> ?seed ! f" if "e < nadj" "f < nadj" for e f
      using dist(3) that len by (metis disjoint_iff nth_mem)
    have inj_sens: "?sens ! e \<noteq> ?sens ! d" if "Suc d \<le> e" "e < nadj" for e
      using dist(1) that True len by (simp add: nth_eq_iff_index_eq)
    have inj_seed: "?seed ! e \<noteq> ?seed ! d" if "Suc d \<le> e" "e < nadj" for e
      using dist(2) that True len by (simp add: nth_eq_iff_index_eq)
    have nd1: "?sens ! d \<notin> set (drop (Suc d) ?sens)" "?seed ! d \<notin> set (drop (Suc d) ?seed)"
      using dist True len by (simp_all add: nth_notin_drop_Suc)
    have nd2: "?sens ! d \<notin> set (drop (Suc d) ?seed)" "?seed ! d \<notin> set (drop (Suc d) ?sens)"
      using dist(3) True len by (metis disjoint_iff in_set_dropD nth_mem)+
    have frame: "\<forall>a. a \<notin> set (drop d ?sens) \<and> a \<notin> set (drop d ?seed) \<longrightarrow> s' a = s a"
      using fr True len by (simp add: set_drop_Suc_subset)
    have here: "s' (?sens ! d) = ?v" "s' (?seed ! d) = mx_empty ops"
      using fr nd1 nd2 cross [of d d] True by simp_all
    have later: "s' (?sens ! e) =
                  mx_addToSum ops (s (?sens ! e))
                    (mx_reshape ops (s (?seed ! e)) (mx_shape ops (dep node))) \<and>
                 s' (?seed ! e) = mx_empty ops"
      if "Suc d \<le> e" "e < nadj" for e
      using vl that inj_sens [of e] inj_seed [of e] cross [of e d] cross [of d e] True
      by simp
    have "\<forall>e. d \<le> e \<and> e < nadj \<longrightarrow>
            s' (?sens ! e) =
              mx_addToSum ops (s (?sens ! e))
                (mx_reshape ops (s (?seed ! e)) (mx_shape ops (dep node))) \<and>
            s' (?seed ! e) = mx_empty ops"
      using here later by (metis Suc_leI le_neq_implies_less)
    with r frame show ?thesis by (simp add: step)
  qed
qed

lemma slots0_nth: "d < length v \<Longrightarrow> slots0 v ! d = hd (v ! d)"
  by (simp add: slots0_def)

lemma evaluateMX_result:
  assumes io: "input = ia # ins" "output = oa # outs" "ia \<noteq> oa"
    and sep: "separate_slots output fwdSeed fwdSens adjSeed adjSens"
  shows "\<exists>s'. evaluateMX ops node input output fwdSeed fwdSens adjSeed adjSens output_given s
                 = Inr s' \<and>
           (\<forall>d < length fwdSens.
              s' (slots0 fwdSens ! d) =
                mx_reshape ops (s (slots0 fwdSeed ! d)) (shape (sparsity node))) \<and>
           (\<forall>d < length adjSeed.
              s' (slots0 adjSens ! d) =
                mx_addToSum ops (s (slots0 adjSens ! d))
                  (mx_reshape ops (s (slots0 adjSeed ! d)) (mx_shape ops (dep node))) \<and>
              s' (slots0 adjSeed ! d) = mx_empty ops)"
proof -
  let ?fS = "slots0 fwdSens" and ?fs = "slots0 fwdSeed"
  let ?aS = "slots0 adjSens" and ?as = "slots0 adjSeed"
  define s1 where "s1 = (if \<not> output_given
             then s(oa := mx_reshape ops (s ia) (shape (sparsity node))) else s)"
  have s1: "s1 a = s a" if "a \<noteq> oa" for a
    using that by (simp add: s1_def)
  from sep io have wf: "length fwdSeed = length fwdSens" "length adjSens = length adjSeed"
      "[] \<notin> set fwdSeed" "[] \<notin> set fwdSens" "[] \<notin> set adjSeed" "[] \<notin> set adjSens"
    and dist: "distinct (oa # ?fS @ ?aS @ ?as)"
    and disj: "set ?fs \<inter> set (oa # ?fS) = {}"
    by (simp_all add: separate_slots_def)
  have len: "length ?fS = length fwdSens" "length ?fs = length fwdSens"
            "length ?aS = length adjSeed" "length ?as = length adjSeed"
    using wf by (simp_all add: slots0_def)
  from dist have d1: "distinct ?fS" "distinct (?aS @ ?as)" "oa \<notin> set ?fS" "oa \<notin> set ?aS"
      "oa \<notin> set ?as" "set ?fS \<inter> set ?aS = {}" "set ?fS \<inter> set ?as = {}"
    by auto
  from disj have d2: "set ?fs \<inter> set ?fS = {}" "oa \<notin> set ?fs"
    by auto
  obtain s2 where f: "fwd_loop ops node fwdSeed fwdSens (length fwdSens) 0 s1 = Inr s2"
    and f_frame: "\<forall>a. a \<notin> set (drop 0 ?fS) \<longrightarrow> s2 a = s1 a"
    and f_val: "\<forall>e. 0 \<le> e \<and> e < length fwdSens \<longrightarrow>
                  s2 (?fS ! e) = mx_reshape ops (s1 (?fs ! e)) (shape (sparsity node))"
    using fwd_loop_result [OF refl wf(1) wf(3) wf(4) le0 d1(1) d2(1), of ops node s1]
    by (elim exE conjE) (rule that; assumption)
  obtain s3 where a: "adj_loop ops node adjSeed adjSens (length adjSeed) 0 s2 = Inr s3"
    and a_frame: "\<forall>a. a \<notin> set (drop 0 ?aS) \<and> a \<notin> set (drop 0 ?as) \<longrightarrow> s3 a = s2 a"
    and a_val: "\<forall>e. 0 \<le> e \<and> e < length adjSeed \<longrightarrow>
                  s3 (?aS ! e) =
                    mx_addToSum ops (s2 (?aS ! e))
                      (mx_reshape ops (s2 (?as ! e)) (mx_shape ops (dep node))) \<and>
                  s3 (?as ! e) = mx_empty ops"
    using adj_loop_result [OF refl wf(2) wf(5) wf(6) le0 d1(2), of ops node s2]
    by (elim exE conjE) (rule that; assumption)
  have r: "evaluateMX ops node input output fwdSeed fwdSens adjSeed adjSens output_given s
             = Inr s3"
    using io f a by (simp add: evaluateMX_def s1_def)
  have fwd: "s3 (?fS ! d) = mx_reshape ops (s (?fs ! d)) (shape (sparsity node))"
    if "d < length fwdSens" for d
  proof -
    have m: "?fS ! d \<in> set ?fS" "?fs ! d \<in> set ?fs" using that len by simp_all
    from m(1) d1(6,7) have "?fS ! d \<notin> set ?aS" "?fS ! d \<notin> set ?as" by blast+
    then have "s3 (?fS ! d) = s2 (?fS ! d)" using a_frame by simp
    also have "\<dots> = mx_reshape ops (s1 (?fs ! d)) (shape (sparsity node))"
      using f_val that by simp
    also have "s1 (?fs ! d) = s (?fs ! d)" using m(2) d2(2) by (intro s1) blast
    finally show ?thesis .
  qed
  have adj: "s3 (?aS ! d) =
               mx_addToSum ops (s (?aS ! d))
                 (mx_reshape ops (s (?as ! d)) (mx_shape ops (dep node))) \<and>
             s3 (?as ! d) = mx_empty ops"
    if "d < length adjSeed" for d
  proof -
    have m: "?aS ! d \<in> set ?aS" "?as ! d \<in> set ?as" using that len by simp_all
    from m d1(3-7) have n: "?aS ! d \<notin> set ?fS" "?as ! d \<notin> set ?fS"
        "?aS ! d \<noteq> oa" "?as ! d \<noteq> oa"
      by blast+
    have "s2 (?aS ! d) = s1 (?aS ! d)" "s2 (?as ! d) = s1 (?as ! d)"
      using f_frame n by simp_all
    then have "s2 (?aS ! d) = s (?aS ! d)" "s2 (?as ! d) = s (?as ! d)"
      using n by (simp_all add: s1)
    then show ?thesis using a_val that by simp
  qed
  show ?thesis using r fwd adj by simp
qed

text \<open>
  Claim C6. When the input slot and the output slot are different and the slots of the
  call are laid out properly, the symbolic-graph evaluation succeeds, and for every
  forward direction \<open>d\<close> the slot \<^verbatim>\<open>fwdSens[d][0]\<close> then holds the reshape of the
  expression that \<^verbatim>\<open>fwdSeed[d][0]\<close> held at the call, to the node's own shape.
\<close>

theorem evaluateMX_forward_sensitivities:
  assumes "input = ia # ins" "output = oa # outs" "ia \<noteq> oa"
    and "separate_slots output fwdSeed fwdSens adjSeed adjSens"
  shows "\<exists>s'. evaluateMX ops node input output fwdSeed fwdSens adjSeed adjSens output_given s
                 = Inr s' \<and>
           (\<forall>d < length fwdSens.
              s' (hd (fwdSens ! d)) =
                mx_reshape ops (s (hd (fwdSeed ! d))) (shape (sparsity node)))"
proof -
  from assms(4) have "length fwdSeed = length fwdSens"
    by (simp add: separate_slots_def)
  then show ?thesis
    using evaluateMX_result [OF assms, of ops node output_given s]
    by (auto simp: slots0_nth)
qed

theorem evaluateMX_forward_sensitivities_witness:
  "\<exists>s'. evaluateMX val_ops \<lparr>dep = \<lparr>m_sp = dense_sparsity 2 1, m_nz = [0, 0]\<rparr>,
                              sparsity = dense_sparsity 1 2\<rparr>
             [0] [1] [[2]] [[3]] [[4]] [[5]] False
             ((\<lambda>a. val_empty)
                (0 := \<lparr>m_sp = dense_sparsity 2 1, m_nz = [7, 8]\<rparr>,
                 2 := \<lparr>m_sp = dense_sparsity 2 1, m_nz = [1, 2]\<rparr>,
                 4 := \<lparr>m_sp = dense_sparsity 1 2, m_nz = [3, 4]\<rparr>,
                 5 := \<lparr>m_sp = dense_sparsity 2 1, m_nz = [10, 20]\<rparr>)) = Inr s' \<and>
          s' 3 = \<lparr>m_sp = dense_sparsity 1 2, m_nz = [1, 2]\<rparr>"
proof -
  let ?node = "\<lparr>dep = \<lparr>m_sp = dense_sparsity 2 1, m_nz = [0, 0]\<rparr>,
                sparsity = dense_sparsity 1 2\<rparr>"
  let ?s = "(\<lambda>a::addr. val_empty)
                (0 := \<lparr>m_sp = dense_sparsity 2 1, m_nz = [7, 8]\<rparr>,
                 2 := \<lparr>m_sp = dense_sparsity 2 1, m_nz = [1, 2]\<rparr>,
                 4 := \<lparr>m_sp = dense_sparsity 1 2, m_nz = [3, 4]\<rparr>,
                 5 := \<lparr>m_sp = dense_sparsity 2 1, m_nz = [10, 20]\<rparr>)"
  have sep: "separate_slots [1] [[2]] [[3]] [[4]] [[5]]"
    by (simp add: separate_slots_def slots0_def)
  have "\<exists>s'. evaluateMX val_ops ?node [0] [1] [[2]] [[3]] [[4]] [[5]] False ?s = Inr s' \<and>
          (\<forall>d < length [[3::addr]].
              s' (hd ([[3]] ! d)) =
                mx_reshape val_ops (?s (hd ([[2]] ! d))) (shape (sparsity ?node)))"
    by (rule evaluateMX_forward_sensitivities [where ia = 0 and oa = 1
          and ins = "[]" and outs = "[]", OF _ _ _ sep])
       simp_all
  then obtain s' where
    r: "evaluateMX val_ops ?node [0] [1] [[2]] [[3]] [[4]] [[5]] False ?s = Inr s'"
    and v: "\<forall>d < length [[3::addr]].
              s' (hd ([[3]] ! d)) =
                mx_reshape val_ops (?s (hd ([[2]] ! d))) (shape (sparsity ?node))"
    by (elim exE conjE)
  from v have "s' 3 = mx_reshape val_ops (?s 2) (shape (sparsity ?node))"
    by simp
  also have "\<dots> = \<lparr>m_sp = dense_sparsity 1 2, m_nz = [1, 2]\<rparr>"
    by (simp add: val_ops_def val_reshape_def reshape_sparsity_def shape_def dense_sparsity_def)
  finally show ?thesis using r by simp
qed

text \<open>
  Claim C1. When the input slot and the output slot are different and the slots of the
  call are laid out properly, the symbolic-graph evaluation succeeds, and for every
  adjoint direction \<open>d\<close> the slot \<^verbatim>\<open>adjSens[d][0]\<close> then holds what
  \<^verbatim>\<open>addToSum\<close> makes of its previous content and the adjoint seed reshaped to the
  dependency's shape (it is added to, not overwritten), and the slot
  \<^verbatim>\<open>adjSeed[d][0]\<close> holds the empty expression.
\<close>

theorem evaluateMX_adjoint_sensitivities:
  assumes "input = ia # ins" "output = oa # outs" "ia \<noteq> oa"
    and "separate_slots output fwdSeed fwdSens adjSeed adjSens"
  shows "\<exists>s'. evaluateMX ops node input output fwdSeed fwdSens adjSeed adjSens output_given s
                 = Inr s' \<and>
           (\<forall>d < length adjSeed.
              s' (hd (adjSens ! d)) =
                mx_addToSum ops (s (hd (adjSens ! d)))
                  (mx_reshape ops (s (hd (adjSeed ! d))) (mx_shape ops (dep node))) \<and>
              s' (hd (adjSeed ! d)) = mx_empty ops)"
proof -
  from assms(4) have "length adjSens = length adjSeed"
    by (simp add: separate_slots_def)
  then show ?thesis
    using evaluateMX_result [OF assms, of ops node output_given s]
    by (auto simp: slots0_nth)
qed

theorem evaluateMX_adjoint_sensitivities_witness:
  "\<exists>s'. evaluateMX val_ops \<lparr>dep = \<lparr>m_sp = dense_sparsity 2 1, m_nz = [0, 0]\<rparr>,
                              sparsity = dense_sparsity 1 2\<rparr>
             [0] [1] [[2]] [[3]] [[4]] [[5]] False
             ((\<lambda>a. val_empty)
                (0 := \<lparr>m_sp = dense_sparsity 2 1, m_nz = [7, 8]\<rparr>,
                 2 := \<lparr>m_sp = dense_sparsity 2 1, m_nz = [1, 2]\<rparr>,
                 4 := \<lparr>m_sp = dense_sparsity 1 2, m_nz = [3, 4]\<rparr>,
                 5 := \<lparr>m_sp = dense_sparsity 2 1, m_nz = [10, 20]\<rparr>)) = Inr s' \<and>
          s' 5 = \<lparr>m_sp = dense_sparsity 2 1, m_nz = [13, 24]\<rparr> \<and> s' 4 = val_empty"
proof -
  let ?node = "\<lparr>dep = \<lparr>m_sp = dense_sparsity 2 1, m_nz = [0, 0]\<rparr>,
                sparsity = dense_sparsity 1 2\<rparr>"
  let ?s = "(\<lambda>a::addr. val_empty)
                (0 := \<lparr>m_sp = dense_sparsity 2 1, m_nz = [7, 8]\<rparr>,
                 2 := \<lparr>m_sp = dense_sparsity 2 1, m_nz = [1, 2]\<rparr>,
                 4 := \<lparr>m_sp = dense_sparsity 1 2, m_nz = [3, 4]\<rparr>,
                 5 := \<lparr>m_sp = dense_sparsity 2 1, m_nz = [10, 20]\<rparr>)"
  have sep: "separate_slots [1] [[2]] [[3]] [[4]] [[5]]"
    by (simp add: separate_slots_def slots0_def)
  have "\<exists>s'. evaluateMX val_ops ?node [0] [1] [[2]] [[3]] [[4]] [[5]] False ?s = Inr s' \<and>
          (\<forall>d < length [[4::addr]].
              s' (hd ([[5]] ! d)) =
                mx_addToSum val_ops (?s (hd ([[5]] ! d)))
                  (mx_reshape val_ops (?s (hd ([[4]] ! d))) (mx_shape val_ops (dep ?node))) \<and>
              s' (hd ([[4]] ! d)) = mx_empty val_ops)"
    by (rule evaluateMX_adjoint_sensitivities [where ia = 0 and oa = 1
          and ins = "[]" and outs = "[]", OF _ _ _ sep])
       simp_all
  then obtain s' where
    r: "evaluateMX val_ops ?node [0] [1] [[2]] [[3]] [[4]] [[5]] False ?s = Inr s'"
    and v: "\<forall>d < length [[4::addr]].
              s' (hd ([[5]] ! d)) =
                mx_addToSum val_ops (?s (hd ([[5]] ! d)))
                  (mx_reshape val_ops (?s (hd ([[4]] ! d))) (mx_shape val_ops (dep ?node))) \<and>
              s' (hd ([[4]] ! d)) = mx_empty val_ops"
    by (elim exE conjE)
  from v have "s' 5 = mx_addToSum val_ops (?s 5)
                  (mx_reshape val_ops (?s 4) (mx_shape val_ops (dep ?node)))"
    and e: "s' 4 = mx_empty val_ops"
    by simp_all
  then have "s' 5 = \<lparr>m_sp = dense_sparsity 2 1, m_nz = [13, 24]\<rparr>"
    by (simp add: val_ops_def val_reshape_def val_addToSum_def reshape_sparsity_def shape_def
          mx_shape_def dense_sparsity_def)
  then show ?thesis using r e by (simp add: val_ops_def)
qed

section \<open>SubRef: numeric evaluation\<close>

lemma find_nz_Some: "find_nz ps p = Some k \<Longrightarrow> k < length ps \<and> ps ! k = p"
  by (induction ps arbitrary: k) (auto split: if_splits)

lemma find_nz_None: "find_nz ps p = None \<longleftrightarrow> p \<notin> set ps"
  by (induction ps) auto

lemma gather_loop_result:
  assumes "\<forall>k \<in> set idx. k < length arg" "length idx \<le> length res" "t \<le> length idx"
  shows "gather_loop arg idx t res =
           Inr (take t res @ map ((!) arg) (drop t idx) @ drop (length idx) res)"
  using assms
proof (induction arg idx t res rule: gather_loop.induct)
  case (1 arg idx t res)
  show ?case
  proof (cases "t < length idx")
    case False
    with "1.prems" show ?thesis by (simp add: gather_loop.simps)
  next
    case True
    have b: "idx ! t < length arg" "t < length res"
      using True "1.prems" by simp_all
    have step: "gather_loop arg idx t res =
                gather_loop arg idx (Suc t) (res[t := arg ! (idx ! t)])"
      using True b by (subst gather_loop.simps) simp
    have ih: "gather_loop arg idx (Suc t) (res[t := arg ! (idx ! t)]) =
        Inr (take (Suc t) (res[t := arg ! (idx ! t)]) @ map ((!) arg) (drop (Suc t) idx)
               @ drop (length idx) (res[t := arg ! (idx ! t)]))"
      using "1.IH" [OF True] b True "1.prems" by simp
    have a: "take (Suc t) (res[t := arg ! (idx ! t)]) = take t res @ [arg ! (idx ! t)]"
      using b by (simp add: take_Suc_conv_app_nth)
    have c: "drop (length idx) (res[t := arg ! (idx ! t)]) = drop (length idx) res"
      using True by simp
    have d: "drop t idx = idx ! t # drop (Suc t) idx"
      using True by (simp add: Cons_nth_drop_Suc)
    show ?thesis by (simp add: step ih a c d)
  qed
qed

lemma subref_nz_conv:
  "subref_nz sp i j =
     map (\<lambda>c. the (find_nz (nz_pos sp) (dep_position i j c))) (nz_pos (sub_sparsity sp i j))"
  by (simp add: subref_nz_def sub_sparsity_def List.map_filter_def comp_def)

lemma length_subref_nz: "length (subref_nz sp i j) = nnz (sub_sparsity sp i j)"
  by (simp add: subref_nz_conv nnz_def)

lemma sub_sparsity_member:
  "c \<in> set (nz_pos (sub_sparsity sp i j)) \<longleftrightarrow>
     fst c < length (slice_indices i) \<and> snd c < length (slice_indices j) \<and>
     dep_position i j c \<in> set (nz_pos sp)"
  by (cases c) (auto simp: sub_sparsity_def block_coords_def find_nz_None)

lemma subref_nz_nth:
  assumes "t < nnz (sub_sparsity sp i j)"
  shows "\<exists>k. find_nz (nz_pos sp) (dep_position i j (nz_pos (sub_sparsity sp i j) ! t)) = Some k \<and>
             subref_nz sp i j ! t = k \<and> k < nnz sp"
proof -
  let ?c = "nz_pos (sub_sparsity sp i j) ! t"
  have "?c \<in> set (nz_pos (sub_sparsity sp i j))"
    using assms by (simp add: nnz_def)
  then have "dep_position i j ?c \<in> set (nz_pos sp)"
    by (simp add: sub_sparsity_member)
  then obtain k where k: "find_nz (nz_pos sp) (dep_position i j ?c) = Some k"
    using find_nz_None [of "nz_pos sp" "dep_position i j ?c"] by auto
  moreover have "subref_nz sp i j ! t = k"
    using assms k by (simp add: subref_nz_conv nnz_def)
  moreover have "k < nnz sp"
    using find_nz_Some [OF k] by (simp add: nnz_def)
  ultimately show ?thesis by simp
qed

lemma subref_nz_bound: "\<forall>k \<in> set (subref_nz sp i j). k < nnz sp"
proof
  fix k assume "k \<in> set (subref_nz sp i j)"
  then obtain t where "t < length (subref_nz sp i j)" "subref_nz sp i j ! t = k"
    by (auto simp: in_set_conv_nth)
  then show "k < nnz sp"
    using subref_nz_nth [of t sp i j] by (auto simp: length_subref_nz)
qed

lemma sorted_wrt_product:
  "sorted_wrt (<) xs \<Longrightarrow> sorted_wrt (<) ys \<Longrightarrow> sorted_wrt row_major (List.product xs ys)"
  by (induction xs) (auto simp: sorted_wrt_append sorted_wrt_map row_major_def)

lemma sub_sparsity_row_major: "sorted_wrt row_major (nz_pos (sub_sparsity sp i j))"
  by (simp add: sub_sparsity_def block_coords_def sorted_wrt_filter sorted_wrt_product)

lemma scenario_nz_indices: "subref_nz (dense_sparsity 4 4) \<lparr>start = 1, stop = 3, step = 1\<rparr>
              \<lparr>start = 0, stop = 2, step = 1\<rparr> = [1, 5, 2, 6]"
  by code_simp

lemma scenario_values: "map (\<lambda>(r, c). real (4 * r + c)) (nz_pos (dense_sparsity 4 4)) =
    [0, 4, 8, 12, 1, 5, 9, 13, 2, 6, 10, 14, 3, 7, 11, 15]"
  by code_simp

lemma scenario_gather:
  "gather_loop [0, 4, 8, 12, 1, 5, 9, 13, 2, 6, 10, 14, 3, 7, 11, 15 :: real]
     [1, 5, 2, 6] 0 [0, 0, 0, 0] = Inr [4, 5, 8, 9]"
  by (simp add: gather_loop_result)

lemma scenario_rows:
  "dense_rows \<lparr>size1 = 2, size2 = 2, nz_pos = [(0, 0), (0, 1), (1, 0), (1, 1)]\<rparr>
     [4, 5, 8, 9] = [[4, 5], [8, 9]]"
  by (simp add: dense_rows_def)

lemma scenario_in_range: "slice_in_range \<lparr>start = 1, stop = 3, step = 1\<rparr> 4"
  "slice_in_range \<lparr>start = 0, stop = 2, step = 1\<rparr> 4"
  by code_simp+

lemma SubRef_fields:
  assumes "SubRef ops x i j = Inr node"
  shows "dep node = x" "sparsity node = sub_sparsity (mx_sparsity ops x) i j"
    "i_slice node = i" "j_slice node = j"
  using assms by (auto simp: SubRef_def split: if_splits)

lemma SubRef_evaluateGen_result:
  assumes c: "SubRef ops x i j = Inr node"
    and io: "input = ia # ins" "output = oa # outs" "ia \<noteq> oa"
    and len: "length (mem ia) = mx_nnz ops x" "length (mem oa) = nnz (sparsity node)"
  shows "SubRef_evaluateGen ops node input output mem =
           Inr (mem(oa := map ((!) (mem ia)) (subref_nz (mx_sparsity ops x) i j)))"
proof -
  note f = SubRef_fields [OF c]
  let ?idx = "subref_nz (mx_sparsity ops x) i j"
  have b: "\<forall>k \<in> set ?idx. k < length (mem ia)"
    using subref_nz_bound [of "mx_sparsity ops x" i j] len(1) by (simp add: mx_nnz_def)
  have l: "length ?idx = length (mem oa)"
    using len(2) f(2) by (simp add: length_subref_nz)
  have "gather_loop (mem ia) ?idx 0 (mem oa) = Inr (map ((!) (mem ia)) ?idx)"
    using gather_loop_result [OF b, of "mem oa" 0] l by simp
  then show ?thesis
    using io f by (simp add: SubRef_evaluateGen_def)
qed

text \<open>
  Claim C9. For a SubRef node built from a dependency \<open>x\<close>, a row selector \<open>i\<close> and a
  column selector \<open>j\<close>, with input and output buffers at different addresses that hold
  the nonzeros of \<open>x\<close> and of the node, numeric evaluation succeeds. Afterwards the
  \<open>t\<close>-th output value is the nonzero of \<open>x\<close> at the position of the dependency that
  the \<open>t\<close>-th nonzero of the block stands for; the block's nonzeros are exactly the
  block coordinates whose position is a structural nonzero of \<open>x\<close>, in row-major order,
  so that no value from outside the block appears; no other buffer changes. In
  particular, rows \<open>[1:3)\<close> and columns \<open>[0:2)\<close> of the dense 4 by 4 matrix with
  entries \<open>4 * i + j\<close> give the block \<open>[[4, 5], [8, 9]]\<close>.
\<close>

theorem SubRef_evaluate_gathers_block:
  "(SubRef ops x i j = Inr node \<and> input = ia # ins \<and> output = oa # outs \<and> ia \<noteq> oa \<and>
    length (mem ia) = mx_nnz ops x \<and> length (mem oa) = nnz (sparsity node) \<longrightarrow>
    (\<exists>mem'. SubRef_evaluateD ops node input output mem = Inr mem' \<and>
       length (mem' oa) = nnz (sparsity node) \<and>
       (\<forall>t < nnz (sparsity node).
          \<exists>k. find_nz (nz_pos (mx_sparsity ops x))
                 (dep_position i j (nz_pos (sparsity node) ! t)) = Some k \<and>
              mem' oa ! t = mem ia ! k) \<and>
       (\<forall>c. c \<in> set (nz_pos (sparsity node)) \<longleftrightarrow>
            fst c < length (slice_indices i) \<and> snd c < length (slice_indices j) \<and>
            dep_position i j c \<in> set (nz_pos (mx_sparsity ops x))) \<and>
       sorted_wrt row_major (nz_pos (sparsity node)) \<and>
       (\<forall>a. a \<noteq> oa \<longrightarrow> mem' a = mem a))) \<and>
   (\<exists>node mem'.
      SubRef val_ops
        \<lparr>m_sp = dense_sparsity 4 4,
         m_nz = map (\<lambda>(r, c). real (4 * r + c)) (nz_pos (dense_sparsity 4 4))\<rparr>
        \<lparr>start = 1, stop = 3, step = 1\<rparr> \<lparr>start = 0, stop = 2, step = 1\<rparr> = Inr node \<and>
      SubRef_evaluateD val_ops node [0] [1]
        ((\<lambda>a. [])(0 := map (\<lambda>(r, c). real (4 * r + c)) (nz_pos (dense_sparsity 4 4)),
                    1 := [0, 0, 0, 0])) = Inr mem' \<and>
      dense_rows (sparsity node) (mem' 1) = [[4, 5], [8, 9]])"
proof (intro conjI impI)
  assume h: "SubRef ops x i j = Inr node \<and> input = ia # ins \<and> output = oa # outs \<and> ia \<noteq> oa \<and>
    length (mem ia) = mx_nnz ops x \<and> length (mem oa) = nnz (sparsity node)"
  note f = SubRef_fields [of ops x i j node]
  let ?sp = "mx_sparsity ops x"
  let ?m = "mem(oa := map ((!) (mem ia)) (subref_nz ?sp i j))"
  have sp: "sparsity node = sub_sparsity ?sp i j" using h f(2) by simp
  have r: "SubRef_evaluateD ops node input output mem = Inr ?m"
    unfolding SubRef_evaluateD_def using h by (intro SubRef_evaluateGen_result) simp_all
  have l: "length (?m oa) = nnz (sparsity node)"
    by (simp add: sp length_subref_nz)
  have v: "\<exists>k. find_nz (nz_pos ?sp) (dep_position i j (nz_pos (sparsity node) ! t)) = Some k \<and>
              ?m oa ! t = mem ia ! k"
    if "t < nnz (sparsity node)" for t
    using subref_nz_nth [of t ?sp i j] that by (auto simp: sp length_subref_nz)
  have m: "\<forall>c. c \<in> set (nz_pos (sparsity node)) \<longleftrightarrow>
            fst c < length (slice_indices i) \<and> snd c < length (slice_indices j) \<and>
            dep_position i j c \<in> set (nz_pos ?sp)"
    unfolding sp using sub_sparsity_member [of _ ?sp i j] by blast
  have o: "sorted_wrt row_major (nz_pos (sparsity node))"
    by (simp add: sp sub_sparsity_row_major)
  show "\<exists>mem'. SubRef_evaluateD ops node input output mem = Inr mem' \<and>
       length (mem' oa) = nnz (sparsity node) \<and>
       (\<forall>t < nnz (sparsity node).
          \<exists>k. find_nz (nz_pos (mx_sparsity ops x))
                 (dep_position i j (nz_pos (sparsity node) ! t)) = Some k \<and>
              mem' oa ! t = mem ia ! k) \<and>
       (\<forall>c. c \<in> set (nz_pos (sparsity node)) \<longleftrightarrow>
            fst c < length (slice_indices i) \<and> snd c < length (slice_indices j) \<and>
            dep_position i j c \<in> set (nz_pos (mx_sparsity ops x))) \<and>
       sorted_wrt row_major (nz_pos (sparsity node)) \<and>
       (\<forall>a. a \<noteq> oa \<longrightarrow> mem' a = mem a)"
    apply (rule exI [of _ ?m])
    apply (intro conjI)
    subgoal by (rule r)
    subgoal by (rule l)
    subgoal using v by blast
    subgoal by (rule m)
    subgoal by (rule o)
    subgoal by simp
    done
next
  let ?I = "\<lparr>start = 1, stop = 3, step = 1\<rparr>" and ?J = "\<lparr>start = 0, stop = 2, step = 1\<rparr>"
  let ?V = "map (\<lambda>(r, c). real (4 * r + c)) (nz_pos (dense_sparsity 4 4))"
  let ?X = "\<lparr>m_sp = dense_sparsity 4 4, m_nz = ?V\<rparr>"
  let ?N = "\<lparr>dep = ?X, sparsity = sub_sparsity (dense_sparsity 4 4) ?I ?J,
             i_slice = ?I, j_slice = ?J\<rparr>"
  let ?M = "(\<lambda>a::addr. [])(0 := ?V, 1 := [0, 0, 0, 0])"
  have c: "SubRef val_ops ?X ?I ?J = Inr ?N"
    using scenario_in_range by (simp add: SubRef_def val_ops_def dense_sparsity_def)
  have g: "gather_loop ?V (subref_nz (dense_sparsity 4 4) ?I ?J) 0 [0, 0, 0, 0] = Inr [4, 5, 8, 9]"
    unfolding scenario_nz_indices scenario_values by (rule scenario_gather)
  have e: "SubRef_evaluateD val_ops ?N [0] [1] ?M = Inr (?M(1 := [4, 5, 8, 9]))"
    using g by (simp add: SubRef_evaluateD_def SubRef_evaluateGen_def val_ops_def)
  have s: "sub_sparsity (dense_sparsity 4 4) ?I ?J =
             \<lparr>size1 = 2, size2 = 2, nz_pos = [(0, 0), (0, 1), (1, 0), (1, 1)]\<rparr>"
    by code_simp
  have d: "dense_rows (sparsity ?N) ((?M(1 := [4, 5, 8, 9])) 1) = [[4, 5], [8, 9]]"
    by (simp only: MXNode.select_convs fun_upd_same s scenario_rows)
  show "\<exists>node mem'. SubRef val_ops ?X ?I ?J = Inr node \<and>
      SubRef_evaluateD val_ops node [0] [1] ?M = Inr mem' \<and>
      dense_rows (sparsity node) (mem' 1) = [[4, 5], [8, 9]]"
    using c e d by blast
qed

theorem SubRef_evaluate_gathers_block_witness:
  "\<exists>mem'. SubRef_evaluateD val_ops
             \<lparr>dep = \<lparr>m_sp = \<lparr>size1 = 3, size2 = 3, nz_pos = [(0, 0), (2, 0), (1, 1), (2, 2)]\<rparr>,
                      m_nz = [10, 20, 30, 40]\<rparr>,
              sparsity = \<lparr>size1 = 2, size2 = 2, nz_pos = [(0, 1), (1, 0)]\<rparr>,
              i_slice = \<lparr>start = 1, stop = 3, step = 1\<rparr>,
              j_slice = \<lparr>start = 0, stop = 2, step = 1\<rparr>\<rparr>
             [0] [1] ((\<lambda>a. [])(0 := [10, 20, 30, 40 :: real], 1 := [0, 0])) = Inr mem' \<and>
           length (mem' 1) = 2 \<and> mem' 1 ! 0 = 30 \<and> mem' 1 ! 1 = 20 \<and>
           mem' 0 = [10, 20, 30, 40]"
proof -
  let ?sp = "\<lparr>size1 = 3, size2 = 3, nz_pos = [(0, 0), (2, 0), (1, 1), (2, 2)]\<rparr>"
  let ?X = "\<lparr>m_sp = ?sp, m_nz = [10, 20, 30, 40]\<rparr>"
  let ?I = "\<lparr>start = 1, stop = 3, step = 1\<rparr>" and ?J = "\<lparr>start = 0, stop = 2, step = 1\<rparr>"
  let ?sub = "\<lparr>size1 = 2, size2 = 2, nz_pos = [(0, 1), (1, 0)]\<rparr>"
  let ?N = "\<lparr>dep = ?X, sparsity = ?sub, i_slice = ?I, j_slice = ?J\<rparr>"
  let ?M = "(\<lambda>a::addr. [])(0 := [10, 20, 30, 40 :: real], 1 := [0, 0])"
  have sub: "sub_sparsity ?sp ?I ?J = ?sub"
    by code_simp
  have rng: "slice_in_range ?I 3" "slice_in_range ?J 3"
    by code_simp+
  have c: "SubRef val_ops ?X ?I ?J = Inr ?N"
    using rng by (simp add: SubRef_def val_ops_def sub del: One_nat_def)
  have p: "find_nz (nz_pos ?sp) (dep_position ?I ?J (0, 1)) = Some 2"
    "find_nz (nz_pos ?sp) (dep_position ?I ?J (1, 0)) = Some 1"
    by code_simp+
  have hyp: "SubRef val_ops ?X ?I ?J = Inr ?N \<and> [0] = 0 # [] \<and> [1] = 1 # [] \<and> (0::addr) \<noteq> 1 \<and>
      length (?M 0) = mx_nnz val_ops ?X \<and> length (?M 1) = nnz (sparsity ?N)"
    using c by (simp add: mx_nnz_def nnz_def val_ops_def del: One_nat_def)
  from SubRef_evaluate_gathers_block
      [where mem = "(\<lambda>a. [])(0 := [10, 20, 30, 40 :: real], 1 := [0, 0])"
      and ia = 0 and oa = 1 and ins = "[]" and outs = "[]", THEN conjunct1, THEN mp, OF hyp]
  obtain mem' where r: "SubRef_evaluateD val_ops ?N [0] [1] ?M = Inr mem'"
    and l: "length (mem' 1) = nnz (sparsity ?N)"
    and v: "\<forall>t < nnz (sparsity ?N).
          \<exists>k. find_nz (nz_pos (mx_sparsity val_ops ?X))
                 (dep_position ?I ?J (nz_pos (sparsity ?N) ! t)) = Some k \<and>
              mem' 1 ! t = ?M 0 ! k"
    and fr: "\<forall>a. a \<noteq> 1 \<longrightarrow> mem' a = ?M a"
    by (elim exE conjE)
  have n: "nnz (sparsity ?N) = 2" by (simp add: nnz_def)
  have a: "mx_sparsity val_ops ?X = ?sp" by (simp add: val_ops_def)
  have e: "nz_pos (sparsity ?N) ! 0 = (0, 1)" "nz_pos (sparsity ?N) ! 1 = (1, 0)"
    by simp_all
  have t: "0 < nnz (sparsity ?N)" "1 < nnz (sparsity ?N)"
    unfolding n by simp_all
  from v t(1) have "\<exists>k. find_nz (nz_pos (mx_sparsity val_ops ?X))
                 (dep_position ?I ?J (nz_pos (sparsity ?N) ! 0)) = Some k \<and>
              mem' 1 ! 0 = ?M 0 ! k"
    by blast
  then have v0: "mem' 1 ! 0 = 30" unfolding a e p by simp
  from v t(2) have "\<exists>k. find_nz (nz_pos (mx_sparsity val_ops ?X))
                 (dep_position ?I ?J (nz_pos (sparsity ?N) ! 1)) = Some k \<and>
              mem' 1 ! 1 = ?M 0 ! k"
    by blast
  then have v1: "mem' 1 ! 1 = 20" unfolding a e p by simp
  from fr have i: "mem' 0 = [10, 20, 30, 40]" by simp
  show ?thesis using r l n v0 v1 i by simp
qed

section \<open>The adjoint identity\<close>

text \<open>
  Reshaping keeps the column-major index of every position, so the entry of a reshaped
  matrix at the reshaped position is the entry of the matrix.
\<close>

lemma find_nz_map_inj:
  "inj_on f (insert q (set ps)) \<Longrightarrow> find_nz (map f ps) (f q) = find_nz ps q"
proof (induction ps)
  case Nil
  then show ?case by simp
next
  case (Cons p ps)
  have "inj_on f (insert q (set ps))"
    using Cons.prems by (rule inj_on_subset) auto
  then have ih: "find_nz (map f ps) (f q) = find_nz ps q"
    by (rule Cons.IH)
  have "f p = f q \<longleftrightarrow> p = q"
    using Cons.prems by (auto simp: inj_on_def)
  then show ?case using ih by simp
qed

lemma nz_pos_reshape_sparsity:
  "nz_pos (reshape_sparsity sp sh) = map (reshape_pos (size1 sp) (fst sh)) (nz_pos sp)"
  by (simp add: reshape_sparsity_def reshape_pos_def case_prod_beta)

lemma shape_reshape_sparsity [simp]: "shape (reshape_sparsity sp sh) = sh"
  by (simp add: reshape_sparsity_def shape_def)

lemma linear_index_inj:
  assumes "r < s" "r' < s" "r + c * s = r' + c' * s"
  shows "r = r' \<and> c = (c'::nat)"
proof -
  have "(r + c * s) mod s = r" "(r' + c' * s) mod s = r'"
    using assms(1,2) by simp_all
  then have r: "r = r'" using assms(3) by simp
  have "(r + c * s) div s = c" "(r' + c' * s) div s = c'"
    using assms(1,2) by simp_all
  then have "c = c'" using assms(3) by metis
  with r show ?thesis by simp
qed

lemma reshape_pos_inj_on:
  "inj_on (reshape_pos s n) {p. fst p < s}"
proof (rule inj_onI)
  fix p p' assume p: "p \<in> {p. fst p < s}" and p': "p' \<in> {p. fst p < s}"
    and eq: "reshape_pos s n p = reshape_pos s n p'"
  let ?l = "fst p + snd p * s" and ?l' = "fst p' + snd p' * s"
  from eq have "?l mod n = ?l' mod n" "?l div n = ?l' div n"
    by (simp_all add: reshape_pos_def)
  then have "?l = ?l'"
    by (metis div_mult_mod_eq)
  then show "p = p'"
    using linear_index_inj [of "fst p" s "fst p'" "snd p" "snd p'"] p p'
    by (simp add: prod_eq_iff)
qed

lemma reshape_pos_back:
  "fst p < s \<Longrightarrow> reshape_pos n s (reshape_pos s n p) = p"
  by (simp add: reshape_pos_def prod_eq_iff)

lemma reshape_pos_in_range:
  assumes "fst p < s" "snd p < t" "s * t = n * m"
  shows "fst (reshape_pos s n p) < n \<and> snd (reshape_pos s n p) < m"
proof -
  let ?l = "fst p + snd p * s"
  have "?l < s + snd p * s" using assms(1) by simp
  also have "\<dots> = Suc (snd p) * s" by simp
  also have "\<dots> \<le> t * s" using assms(2) by (intro mult_le_mono1) simp
  finally have l: "?l < n * m" using assms(3) by (simp add: mult.commute)
  then have n: "0 < n" by (cases n) simp_all
  have "?l div n < m" using l n by (simp add: less_mult_imp_div_less mult.commute)
  then show ?thesis using n by (simp add: reshape_pos_def)
qed

lemma inner_product_sum:
  "inner_product A B =
     (\<Sum>p \<in> {..< size1 (m_sp A)} \<times> {..< size2 (m_sp A)}. entry A p * entry B p)"
proof -
  let ?ps = "List.product [0 ..< size1 (m_sp A)] [0 ..< size2 (m_sp A)]"
  have "distinct ?ps" by (simp add: distinct_product)
  moreover have "set ?ps = {..< size1 (m_sp A)} \<times> {..< size2 (m_sp A)}"
    by (auto simp: atLeast0LessThan)
  ultimately show ?thesis
    by (simp add: inner_product_def sum_list_distinct_conv_sum_set)
qed

lemma entry_val_reshape:
  assumes "\<forall>p \<in> set (nz_pos (m_sp A)). fst p < size1 (m_sp A)" "fst q < size1 (m_sp A)"
  shows "entry (val_reshape A sh) (reshape_pos (size1 (m_sp A)) (fst sh) q) = entry A q"
proof -
  let ?f = "reshape_pos (size1 (m_sp A)) (fst sh)"
  have "insert q (set (nz_pos (m_sp A))) \<subseteq> {p. fst p < size1 (m_sp A)}"
    using assms by auto
  then have "inj_on ?f (insert q (set (nz_pos (m_sp A))))"
    using reshape_pos_inj_on by (rule inj_on_subset [rotated])
  then have "find_nz (map ?f (nz_pos (m_sp A))) (?f q) = find_nz (nz_pos (m_sp A)) q"
    by (rule find_nz_map_inj)
  then show ?thesis
    by (simp add: entry_def val_reshape_def nz_pos_reshape_sparsity split: option.splits)
qed

lemma val_reshape_adjoint:
  assumes u: "\<forall>p \<in> set (nz_pos (m_sp u)). fst p < size1 (m_sp u)"
    and w: "\<forall>p \<in> set (nz_pos (m_sp w)). fst p < size1 (m_sp w)"
    and sz: "size1 (m_sp u) * size2 (m_sp u) = size1 (m_sp w) * size2 (m_sp w)"
  shows "inner_product (val_reshape u (shape (m_sp w))) w =
         inner_product u (val_reshape w (shape (m_sp u)))"
proof -
  let ?s = "size1 (m_sp u)" and ?t = "size2 (m_sp u)"
  let ?n = "size1 (m_sp w)" and ?m = "size2 (m_sp w)"
  let ?S = "{..< ?s} \<times> {..< ?t}" and ?N = "{..< ?n} \<times> {..< ?m}"
  let ?fu = "val_reshape u (shape (m_sp w))" and ?bw = "val_reshape w (shape (m_sp u))"
  have szs: "size1 (m_sp ?fu) = ?n" "size2 (m_sp ?fu) = ?m"
    by (simp_all add: val_reshape_def reshape_sparsity_def shape_def)
  have lhs: "inner_product ?fu w = (\<Sum>p \<in> ?N. entry ?fu p * entry w p)"
    by (simp add: inner_product_sum szs)
  have rhs: "inner_product u ?bw = (\<Sum>q \<in> ?S. entry u q * entry ?bw q)"
    by (simp add: inner_product_sum)
  have "(\<Sum>q \<in> ?S. entry u q * entry ?bw q) = (\<Sum>p \<in> ?N. entry ?fu p * entry w p)"
  proof (rule sum.reindex_bij_witness [where i = "reshape_pos ?n ?s" and j = "reshape_pos ?s ?n"])
    fix q assume q: "q \<in> ?S"
    then have qs: "fst q < ?s" "snd q < ?t" by auto
    show "reshape_pos ?n ?s (reshape_pos ?s ?n q) = q"
      using qs by (simp add: reshape_pos_back)
    have r: "fst (reshape_pos ?s ?n q) < ?n \<and> snd (reshape_pos ?s ?n q) < ?m"
      using qs sz by (intro reshape_pos_in_range) simp_all
    then show "reshape_pos ?s ?n q \<in> ?N" by (auto simp: mem_Times_iff)
    have "entry ?fu (reshape_pos ?s ?n q) = entry u q"
      using entry_val_reshape [OF u qs(1), of "shape (m_sp w)"] by (simp add: shape_def)
    moreover have "entry ?bw (reshape_pos ?n ?s (reshape_pos ?s ?n q)) =
                   entry w (reshape_pos ?s ?n q)"
      using entry_val_reshape [OF w, of "reshape_pos ?s ?n q" "shape (m_sp u)"] r
      by (simp add: shape_def)
    then have "entry ?bw q = entry w (reshape_pos ?s ?n q)"
      using qs by (simp add: reshape_pos_back)
    ultimately show "entry ?fu (reshape_pos ?s ?n q) * entry w (reshape_pos ?s ?n q) =
        entry u q * entry ?bw q"
      by simp
  next
    fix p assume p: "p \<in> ?N"
    then have ps: "fst p < ?n" "snd p < ?m" by auto
    show "reshape_pos ?s ?n (reshape_pos ?n ?s p) = p"
      using ps by (simp add: reshape_pos_back)
    have "fst (reshape_pos ?n ?s p) < ?s \<and> snd (reshape_pos ?n ?s p) < ?t"
      using ps sz by (intro reshape_pos_in_range) simp_all
    then show "reshape_pos ?n ?s p \<in> ?S" by (auto simp: mem_Times_iff)
  qed
  then show ?thesis by (simp add: lhs rhs)
qed

text \<open>
  The sub-block reads the dependency at the positions the selectors denote; the scatter
  writes the seed's entries to the same positions and leaves zero elsewhere.
\<close>

lemma distinct_slice_indices: "0 < step sl \<Longrightarrow> distinct (slice_indices sl)"
  by (auto simp: slice_indices_def distinct_map inj_on_def)

lemma distinct_block_coords: "distinct (block_coords i j)"
  by (simp add: block_coords_def distinct_product)

lemma dep_position_inj:
  assumes "0 < step i" "0 < step j"
    and "c \<in> set (block_coords i j)" "c' \<in> set (block_coords i j)"
    and "dep_position i j c = dep_position i j c'"
  shows "c = c'"
proof -
  have d: "distinct (slice_indices i)" "distinct (slice_indices j)"
    using assms(1,2) by (simp_all add: distinct_slice_indices)
  have b: "fst c < length (slice_indices i)" "snd c < length (slice_indices j)"
          "fst c' < length (slice_indices i)" "snd c' < length (slice_indices j)"
    using assms(3,4) by (auto simp: block_coords_def)
  from assms(5) have "slice_indices i ! fst c = slice_indices i ! fst c'"
    "slice_indices j ! snd c = slice_indices j ! snd c'"
    by (simp_all add: dep_position_def)
  then have "fst c = fst c'" "snd c = snd c'"
    using d b by (simp_all add: nth_eq_iff_index_eq)
  then show ?thesis by (simp add: prod_eq_iff)
qed

lemma find_unique:
  "x \<in> set xs \<Longrightarrow> \<forall>y \<in> set xs. P y \<longleftrightarrow> y = x \<Longrightarrow> List.find P xs = Some x"
  by (induction xs) auto

lemma set_block_coords:
  "set (block_coords i j) = {..< length (slice_indices i)} \<times> {..< length (slice_indices j)}"
  by (auto simp: block_coords_def atLeast0LessThan)

lemma dep_position_in_range:
  assumes "slice_in_range i n" "slice_in_range j m" "c \<in> set (block_coords i j)"
  shows "dep_position i j c \<in> {..< n} \<times> {..< m}"
  using assms by (auto simp: slice_in_range_def dep_position_def set_block_coords)

lemma entry_val_sub:
  assumes c: "c \<in> set (block_coords i j)" and len: "length (m_nz u) = nnz (m_sp u)"
  shows "entry (val_sub u i j) c = entry u (dep_position i j c)"
proof (cases "find_nz (nz_pos (m_sp u)) (dep_position i j c)")
  case None
  then have "c \<notin> set (nz_pos (sub_sparsity (m_sp u) i j))"
    by (simp add: sub_sparsity_def)
  then have "find_nz (nz_pos (sub_sparsity (m_sp u) i j)) c = None"
    by (simp add: find_nz_None)
  then show ?thesis using None by (simp add: entry_def val_sub_def)
next
  case (Some k)
  let ?F = "nz_pos (sub_sparsity (m_sp u) i j)"
  from Some c have "c \<in> set ?F" by (simp add: sub_sparsity_def)
  then obtain t where t: "find_nz ?F c = Some t"
    using find_nz_None [of ?F c] by auto
  then have tF: "t < length ?F" "?F ! t = c"
    using find_nz_Some by blast+
  then have tn: "t < nnz (sub_sparsity (m_sp u) i j)" by (simp add: nnz_def)
  from subref_nz_nth [OF tn] tF(2) Some
  have k: "subref_nz (m_sp u) i j ! t = k" "k < nnz (m_sp u)" by simp_all
  have "entry (val_sub u i j) c = m_nz u ! k"
    using t tn k by (simp add: entry_def val_sub_def length_subref_nz)
  moreover have "entry u (dep_position i j c) = m_nz u ! k"
    using Some k(2) len by (simp add: entry_def)
  ultimately show ?thesis by simp
qed

lemma entry_val_scatter:
  "entry (val_scatter w sp i j) q =
     (case find_nz (nz_pos sp) q of
        None \<Rightarrow> 0
      | Some k \<Rightarrow> (case List.find (\<lambda>c. dep_position i j c = q) (block_coords i j) of
                     None \<Rightarrow> 0
                   | Some c \<Rightarrow> entry w c))"
proof (cases "find_nz (nz_pos sp) q")
  case None
  then show ?thesis by (simp add: entry_def val_scatter_def)
next
  case (Some k)
  then have "k < length (nz_pos sp)" "nz_pos sp ! k = q"
    using find_nz_Some by blast+
  then show ?thesis using Some by (simp add: entry_def val_scatter_def)
qed

lemma val_sub_adjoint:
  assumes st: "0 < step i" "0 < step j"
    and rng: "slice_in_range i (size1 (m_sp u))" "slice_in_range j (size2 (m_sp u))"
    and len: "length (m_nz u) = nnz (m_sp u)"
  shows "inner_product (val_sub u i j) w = inner_product u (val_scatter w (m_sp u) i j)"
proof -
  let ?B = "set (block_coords i j)"
  let ?Q = "{..< size1 (m_sp u)} \<times> {..< size2 (m_sp u)}"
  let ?dp = "dep_position i j"
  let ?sc = "val_scatter w (m_sp u) i j"
  have inj: "inj_on ?dp ?B"
    using dep_position_inj [OF st] by (auto simp: inj_on_def)
  have sub: "?dp ` ?B \<subseteq> ?Q"
    using dep_position_in_range [OF rng] by blast
  have fnd: "List.find (\<lambda>c'. ?dp c' = ?dp c) (block_coords i j) = Some c" if "c \<in> ?B" for c
    using that dep_position_inj [OF st _ that] by (intro find_unique) auto
  have prod: "entry u (?dp c) * entry ?sc (?dp c) = entry (val_sub u i j) c * entry w c"
    if "c \<in> ?B" for c
  proof (cases "find_nz (nz_pos (m_sp u)) (?dp c)")
    case None
    then have "entry u (?dp c) = 0" by (simp add: entry_def)
    then show ?thesis using entry_val_sub [OF that len] by simp
  next
    case (Some k)
    then have "entry ?sc (?dp c) = entry w c"
      using fnd [OF that] by (simp add: entry_val_scatter)
    then show ?thesis using entry_val_sub [OF that len] by simp
  qed
  have zero: "entry u q * entry ?sc q = 0" if "q \<in> ?Q - ?dp ` ?B" for q
  proof -
    have "List.find (\<lambda>c. ?dp c = q) (block_coords i j) = None"
      using that by (force simp: find_None_iff image_iff)
    then have "entry ?sc q = 0"
      by (simp add: entry_val_scatter split: option.splits)
    then show ?thesis by simp
  qed
  have "inner_product u ?sc = (\<Sum>q \<in> ?Q. entry u q * entry ?sc q)"
    by (simp add: inner_product_sum)
  also have "\<dots> = (\<Sum>q \<in> ?dp ` ?B. entry u q * entry ?sc q)"
    using sub zero by (intro sum.mono_neutral_right) auto
  also have "\<dots> = (\<Sum>c \<in> ?B. entry u (?dp c) * entry ?sc (?dp c))"
    using inj by (simp add: sum.reindex)
  also have "\<dots> = (\<Sum>c \<in> ?B. entry (val_sub u i j) c * entry w c)"
    using prod by (intro sum.cong) simp_all
  also have "\<dots> = inner_product (val_sub u i j) w"
    by (simp add: inner_product_sum val_sub_def sub_sparsity_def set_block_coords)
  finally show ?thesis by simp
qed

text \<open>The loops of the symbolic-graph evaluation of SubRef, as for Reshape.\<close>

lemma SubRef_fwd_loop_result:
  assumes "nfwd = length fwdSens" "length fwdSeed = length fwdSens"
    and "[] \<notin> set fwdSeed" "[] \<notin> set fwdSens" "d \<le> nfwd"
    and "distinct (slots0 fwdSens)" "set (slots0 fwdSeed) \<inter> set (slots0 fwdSens) = {}"
  shows "\<exists>s'. SubRef_fwd_loop ops node fwdSeed fwdSens nfwd d s = Inr s' \<and>
           (\<forall>a. a \<notin> set (drop d (slots0 fwdSens)) \<longrightarrow> s' a = s a) \<and>
           (\<forall>e. d \<le> e \<and> e < nfwd \<longrightarrow>
                s' (slots0 fwdSens ! e) =
                  mx_sub ops (s (slots0 fwdSeed ! e)) (i_slice node) (j_slice node))"
  using assms
proof (induction ops node fwdSeed fwdSens nfwd d s rule: SubRef_fwd_loop.induct)
  case (1 ops node fwdSeed fwdSens nfwd d s)
  let ?sens = "slots0 fwdSens" and ?seed = "slots0 fwdSeed"
  have len: "length ?sens = nfwd" "length ?seed = nfwd"
    using "1.prems" by (simp_all add: slots0_def)
  show ?case
  proof (cases "d < nfwd")
    case False
    with "1.prems" show ?thesis by (auto simp: SubRef_fwd_loop.simps)
  next
    case True
    let ?s1 = "s(?sens ! d := mx_sub ops (s (?seed ! d)) (i_slice node) (j_slice node))"
    have sl: "slot0 fwdSens d = Some (?sens ! d)" "slot0 fwdSeed d = Some (?seed ! d)"
      using True "1.prems" by (simp_all add: slot0_Some)
    have step: "SubRef_fwd_loop ops node fwdSeed fwdSens nfwd d s =
                SubRef_fwd_loop ops node fwdSeed fwdSens nfwd (Suc d) ?s1"
      using True sl by (subst SubRef_fwd_loop.simps) simp
    have "Suc d \<le> nfwd" using True by simp
    from "1.IH" [OF True refl sl "1.prems"(1-4) this "1.prems"(6,7)]
    obtain s' where r: "SubRef_fwd_loop ops node fwdSeed fwdSens nfwd (Suc d) ?s1 = Inr s'"
      and fr: "\<forall>a. a \<notin> set (drop (Suc d) ?sens) \<longrightarrow> s' a = ?s1 a"
      and vl: "\<forall>e. Suc d \<le> e \<and> e < nfwd \<longrightarrow>
                s' (?sens ! e) = mx_sub ops (?s1 (?seed ! e)) (i_slice node) (j_slice node)"
      by blast
    have nd: "?sens ! d \<notin> set (drop (Suc d) ?sens)"
      using "1.prems" True len by (simp add: nth_notin_drop_Suc)
    have seed_ne: "?seed ! e \<noteq> ?sens ! d" if "e < nfwd" for e
      using "1.prems"(7) that True len by (metis disjoint_iff nth_mem)
    have frame: "\<forall>a. a \<notin> set (drop d ?sens) \<longrightarrow> s' a = s a"
      using fr True len by (simp add: set_drop_Suc_subset)
    have here: "s' (?sens ! d) = mx_sub ops (s (?seed ! d)) (i_slice node) (j_slice node)"
      using fr nd by simp
    have later: "s' (?sens ! e) = mx_sub ops (s (?seed ! e)) (i_slice node) (j_slice node)"
      if "Suc d \<le> e" "e < nfwd" for e
      using vl that seed_ne [of e] by simp
    have "\<forall>e. d \<le> e \<and> e < nfwd \<longrightarrow>
            s' (?sens ! e) = mx_sub ops (s (?seed ! e)) (i_slice node) (j_slice node)"
      using here later by (metis Suc_leI le_neq_implies_less)
    with r frame show ?thesis by (simp add: step)
  qed
qed

lemma SubRef_adj_loop_result:
  assumes "nadj = length adjSeed" "length adjSens = length adjSeed"
    and "[] \<notin> set adjSeed" "[] \<notin> set adjSens" "d \<le> nadj"
    and "distinct (slots0 adjSens @ slots0 adjSeed)"
  shows "\<exists>s'. SubRef_adj_loop ops node adjSeed adjSens nadj d s = Inr s' \<and>
           (\<forall>a. a \<notin> set (drop d (slots0 adjSens)) \<and> a \<notin> set (drop d (slots0 adjSeed))
                \<longrightarrow> s' a = s a) \<and>
           (\<forall>e. d \<le> e \<and> e < nadj \<longrightarrow>
                s' (slots0 adjSens ! e) =
                  mx_addToSum ops (s (slots0 adjSens ! e))
                    (mx_scatter ops (s (slots0 adjSeed ! e))
                       (mx_sparsity ops (dep node)) (i_slice node) (j_slice node)) \<and>
                s' (slots0 adjSeed ! e) = mx_empty ops)"
  using assms
proof (induction ops node adjSeed adjSens nadj d s rule: SubRef_adj_loop.induct)
  case (1 ops node adjSeed adjSens nadj d s)
  let ?sens = "slots0 adjSens" and ?seed = "slots0 adjSeed"
  have len: "length ?sens = nadj" "length ?seed = nadj"
    using "1.prems" by (simp_all add: slots0_def)
  have dist: "distinct ?sens" "distinct ?seed" "set ?sens \<inter> set ?seed = {}"
    using "1.prems"(6) by simp_all
  show ?case
  proof (cases "d < nadj")
    case False
    with "1.prems" show ?thesis by (auto simp: SubRef_adj_loop.simps)
  next
    case True
    let ?v = "mx_addToSum ops (s (?sens ! d))
                (mx_scatter ops (s (?seed ! d))
                   (mx_sparsity ops (dep node)) (i_slice node) (j_slice node))"
    let ?s1 = "(s(?sens ! d := ?v))(?seed ! d := mx_empty ops)"
    have sl: "slot0 adjSeed d = Some (?seed ! d)" "slot0 adjSens d = Some (?sens ! d)"
      using True "1.prems" by (simp_all add: slot0_Some)
    have step: "SubRef_adj_loop ops node adjSeed adjSens nadj d s =
                SubRef_adj_loop ops node adjSeed adjSens nadj (Suc d) ?s1"
      using True sl by (subst SubRef_adj_loop.simps) simp
    have "Suc d \<le> nadj" using True by simp
    from "1.IH" [OF True refl sl "1.prems"(1-4) this "1.prems"(6)]
    obtain s' where r: "SubRef_adj_loop ops node adjSeed adjSens nadj (Suc d) ?s1 = Inr s'"
      and fr: "\<forall>a. a \<notin> set (drop (Suc d) ?sens) \<and> a \<notin> set (drop (Suc d) ?seed)
                 \<longrightarrow> s' a = ?s1 a"
      and vl: "\<forall>e. Suc d \<le> e \<and> e < nadj \<longrightarrow>
                s' (?sens ! e) =
                  mx_addToSum ops (?s1 (?sens ! e))
                    (mx_scatter ops (?s1 (?seed ! e))
                       (mx_sparsity ops (dep node)) (i_slice node) (j_slice node)) \<and>
                s' (?seed ! e) = mx_empty ops"
      by blast
    have cross: "?sens ! e \<noteq> ?seed ! f" if "e < nadj" "f < nadj" for e f
      using dist(3) that len by (metis disjoint_iff nth_mem)
    have inj_sens: "?sens ! e \<noteq> ?sens ! d" if "Suc d \<le> e" "e < nadj" for e
      using dist(1) that True len by (simp add: nth_eq_iff_index_eq)
    have inj_seed: "?seed ! e \<noteq> ?seed ! d" if "Suc d \<le> e" "e < nadj" for e
      using dist(2) that True len by (simp add: nth_eq_iff_index_eq)
    have nd1: "?sens ! d \<notin> set (drop (Suc d) ?sens)" "?seed ! d \<notin> set (drop (Suc d) ?seed)"
      using dist True len by (simp_all add: nth_notin_drop_Suc)
    have nd2: "?sens ! d \<notin> set (drop (Suc d) ?seed)" "?seed ! d \<notin> set (drop (Suc d) ?sens)"
      using dist(3) True len by (metis disjoint_iff in_set_dropD nth_mem)+
    have frame: "\<forall>a. a \<notin> set (drop d ?sens) \<and> a \<notin> set (drop d ?seed) \<longrightarrow> s' a = s a"
      using fr True len by (simp add: set_drop_Suc_subset)
    have here: "s' (?sens ! d) = ?v" "s' (?seed ! d) = mx_empty ops"
      using fr nd1 nd2 cross [of d d] True by simp_all
    have later: "s' (?sens ! e) =
                  mx_addToSum ops (s (?sens ! e))
                    (mx_scatter ops (s (?seed ! e))
                       (mx_sparsity ops (dep node)) (i_slice node) (j_slice node)) \<and>
                 s' (?seed ! e) = mx_empty ops"
      if "Suc d \<le> e" "e < nadj" for e
      using vl that inj_sens [of e] inj_seed [of e] cross [of e d] cross [of d e] True
      by simp
    have "\<forall>e. d \<le> e \<and> e < nadj \<longrightarrow>
            s' (?sens ! e) =
              mx_addToSum ops (s (?sens ! e))
                (mx_scatter ops (s (?seed ! e))
                   (mx_sparsity ops (dep node)) (i_slice node) (j_slice node)) \<and>
            s' (?seed ! e) = mx_empty ops"
      using here later by (metis Suc_leI le_neq_implies_less)
    with r frame show ?thesis by (simp add: step)
  qed
qed

lemma SubRef_evaluateMX_result:
  assumes io: "input = ia # ins" "output = oa # outs" "ia \<noteq> oa"
    and sep: "separate_slots output fwdSeed fwdSens adjSeed adjSens"
  shows "\<exists>s'. SubRef_evaluateMX ops node input output fwdSeed fwdSens adjSeed adjSens output_given s
                 = Inr s' \<and>
           (\<forall>d < length fwdSens.
              s' (slots0 fwdSens ! d) =
                mx_sub ops (s (slots0 fwdSeed ! d)) (i_slice node) (j_slice node)) \<and>
           (\<forall>d < length adjSeed.
              s' (slots0 adjSens ! d) =
                mx_addToSum ops (s (slots0 adjSens ! d))
                  (mx_scatter ops (s (slots0 adjSeed ! d))
                     (mx_sparsity ops (dep node)) (i_slice node) (j_slice node)) \<and>
              s' (slots0 adjSeed ! d) = mx_empty ops)"
proof -
  let ?fS = "slots0 fwdSens" and ?fs = "slots0 fwdSeed"
  let ?aS = "slots0 adjSens" and ?as = "slots0 adjSeed"
  define s1 where "s1 = (if \<not> output_given
             then s(oa := mx_sub ops (s ia) (i_slice node) (j_slice node)) else s)"
  have s1: "s1 a = s a" if "a \<noteq> oa" for a
    using that by (simp add: s1_def)
  from sep io have wf: "length fwdSeed = length fwdSens" "length adjSens = length adjSeed"
      "[] \<notin> set fwdSeed" "[] \<notin> set fwdSens" "[] \<notin> set adjSeed" "[] \<notin> set adjSens"
    and dist: "distinct (oa # ?fS @ ?aS @ ?as)"
    and disj: "set ?fs \<inter> set (oa # ?fS) = {}"
    by (simp_all add: separate_slots_def)
  have len: "length ?fS = length fwdSens" "length ?fs = length fwdSens"
            "length ?aS = length adjSeed" "length ?as = length adjSeed"
    using wf by (simp_all add: slots0_def)
  from dist have d1: "distinct ?fS" "distinct (?aS @ ?as)" "oa \<notin> set ?fS" "oa \<notin> set ?aS"
      "oa \<notin> set ?as" "set ?fS \<inter> set ?aS = {}" "set ?fS \<inter> set ?as = {}"
    by auto
  from disj have d2: "set ?fs \<inter> set ?fS = {}" "oa \<notin> set ?fs"
    by auto
  obtain s2 where f: "SubRef_fwd_loop ops node fwdSeed fwdSens (length fwdSens) 0 s1 = Inr s2"
    and f_frame: "\<forall>a. a \<notin> set (drop 0 ?fS) \<longrightarrow> s2 a = s1 a"
    and f_val: "\<forall>e. 0 \<le> e \<and> e < length fwdSens \<longrightarrow>
                  s2 (?fS ! e) = mx_sub ops (s1 (?fs ! e)) (i_slice node) (j_slice node)"
    using SubRef_fwd_loop_result [OF refl wf(1) wf(3) wf(4) le0 d1(1) d2(1), of ops node s1]
    by (elim exE conjE) (rule that; assumption)
  obtain s3 where a: "SubRef_adj_loop ops node adjSeed adjSens (length adjSeed) 0 s2 = Inr s3"
    and a_frame: "\<forall>a. a \<notin> set (drop 0 ?aS) \<and> a \<notin> set (drop 0 ?as) \<longrightarrow> s3 a = s2 a"
    and a_val: "\<forall>e. 0 \<le> e \<and> e < length adjSeed \<longrightarrow>
                  s3 (?aS ! e) =
                    mx_addToSum ops (s2 (?aS ! e))
                      (mx_scatter ops (s2 (?as ! e))
                         (mx_sparsity ops (dep node)) (i_slice node) (j_slice node)) \<and>
                  s3 (?as ! e) = mx_empty ops"
    using SubRef_adj_loop_result [OF refl wf(2) wf(5) wf(6) le0 d1(2), of ops node s2]
    by (elim exE conjE) (rule that; assumption)
  have r: "SubRef_evaluateMX ops node input output fwdSeed fwdSens adjSeed adjSens output_given s
             = Inr s3"
    using io f a by (simp add: SubRef_evaluateMX_def s1_def)
  have fwd: "s3 (?fS ! d) = mx_sub ops (s (?fs ! d)) (i_slice node) (j_slice node)"
    if "d < length fwdSens" for d
  proof -
    have m: "?fS ! d \<in> set ?fS" "?fs ! d \<in> set ?fs" using that len by simp_all
    from m(1) d1(6,7) have "?fS ! d \<notin> set ?aS" "?fS ! d \<notin> set ?as" by blast+
    then have "s3 (?fS ! d) = s2 (?fS ! d)" using a_frame by simp
    also have "\<dots> = mx_sub ops (s1 (?fs ! d)) (i_slice node) (j_slice node)"
      using f_val that by simp
    also have "s1 (?fs ! d) = s (?fs ! d)" using m(2) d2(2) by (intro s1) blast
    finally show ?thesis .
  qed
  have adj: "s3 (?aS ! d) =
               mx_addToSum ops (s (?aS ! d))
                 (mx_scatter ops (s (?as ! d))
                    (mx_sparsity ops (dep node)) (i_slice node) (j_slice node)) \<and>
             s3 (?as ! d) = mx_empty ops"
    if "d < length adjSeed" for d
  proof -
    have m: "?aS ! d \<in> set ?aS" "?as ! d \<in> set ?as" using that len by simp_all
    from m d1(3-7) have n: "?aS ! d \<notin> set ?fS" "?as ! d \<notin> set ?fS"
        "?aS ! d \<noteq> oa" "?as ! d \<noteq> oa"
      by blast+
    have "s2 (?aS ! d) = s1 (?aS ! d)" "s2 (?as ! d) = s1 (?as ! d)"
      using f_frame n by simp_all
    then have "s2 (?aS ! d) = s (?aS ! d)" "s2 (?as ! d) = s (?as ! d)"
      using n by (simp_all add: s1)
    then show ?thesis using a_val that by simp
  qed
  show ?thesis using r fwd adj by simp
qed

lemma val_ops_simps [simp]:
  "mx_sparsity val_ops = m_sp" "mx_empty val_ops = val_empty"
  "mx_reshape val_ops = val_reshape" "mx_addToSum val_ops = val_addToSum"
  "mx_sub val_ops = val_sub" "mx_scatter val_ops = val_scatter"
  by (simp_all add: val_ops_def)

lemma val_addToSum_empty [simp]: "val_addToSum val_empty y = y"
  by (simp add: val_addToSum_def val_empty_def shape_def)

lemma dense_sparsity_sizes [simp]:
  "size1 (dense_sparsity n m) = n" "size2 (dense_sparsity n m) = m"
  by (simp_all add: dense_sparsity_def)

lemma shape_val_reshape [simp]: "shape (m_sp (val_reshape x sh)) = sh"
  by (simp add: val_reshape_def)

lemma shape_eq_sizes: "shape a = shape b \<longleftrightarrow> size1 a = size1 b \<and> size2 a = size2 b"
  by (simp add: shape_def)

lemma Reshape_adjoint_identity:
  assumes io: "input = ia # ins" "output = oa # outs" "ia \<noteq> oa"
    and sep: "separate_slots output fwdSeed fwdSens adjSeed adjSens"
    and fresh: "\<forall>e < length adjSeed. s (hd (adjSens ! e)) = val_empty"
    and c: "Reshape val_ops x sp = Inr node"
    and sz: "size1 (m_sp x) * size2 (m_sp x) = size1 sp * size2 sp"
    and fseed: "\<forall>d < length fwdSeed. wf_sparsity (m_sp (s (hd (fwdSeed ! d)))) \<and>
                  shape (m_sp (s (hd (fwdSeed ! d)))) = shape (m_sp x)"
    and aseed: "\<forall>e < length adjSeed. wf_sparsity (m_sp (s (hd (adjSeed ! e)))) \<and>
                  shape (m_sp (s (hd (adjSeed ! e)))) = shape sp"
  shows "\<exists>s'. evaluateMX val_ops node input output fwdSeed fwdSens adjSeed adjSens output_given s
                 = Inr s' \<and>
           (\<forall>d < length fwdSens. \<forall>e < length adjSeed.
              shape (m_sp (s' (hd (fwdSens ! d)))) = shape (m_sp (s (hd (adjSeed ! e)))) \<and>
              shape (m_sp (s' (hd (adjSens ! e)))) = shape (m_sp (s (hd (fwdSeed ! d)))) \<and>
              inner_product (s' (hd (fwdSens ! d))) (s (hd (adjSeed ! e))) =
              inner_product (s (hd (fwdSeed ! d))) (s' (hd (adjSens ! e))))"
proof -
  from sep have len: "length fwdSeed = length fwdSens" "length adjSens = length adjSeed"
    by (simp_all add: separate_slots_def)
  from c have n: "dep node = x" "sparsity node = sp"
    by (auto simp: Reshape_def split: if_splits)
  obtain s' where
    r: "evaluateMX val_ops node input output fwdSeed fwdSens adjSeed adjSens output_given s
          = Inr s'"
    and f: "\<forall>d < length fwdSens.
              s' (slots0 fwdSens ! d) =
                mx_reshape val_ops (s (slots0 fwdSeed ! d)) (shape (sparsity node))"
    and a: "\<forall>d < length adjSeed.
              s' (slots0 adjSens ! d) =
                mx_addToSum val_ops (s (slots0 adjSens ! d))
                  (mx_reshape val_ops (s (slots0 adjSeed ! d)) (mx_shape val_ops (dep node))) \<and>
              s' (slots0 adjSeed ! d) = mx_empty val_ops"
    using evaluateMX_result [OF io sep, of val_ops node output_given s]
    by (elim exE conjE) (rule that; assumption)
  have "shape (m_sp (s' (hd (fwdSens ! d)))) = shape (m_sp (s (hd (adjSeed ! e)))) \<and>
        shape (m_sp (s' (hd (adjSens ! e)))) = shape (m_sp (s (hd (fwdSeed ! d)))) \<and>
        inner_product (s' (hd (fwdSens ! d))) (s (hd (adjSeed ! e))) =
        inner_product (s (hd (fwdSeed ! d))) (s' (hd (adjSens ! e)))"
    if d: "d < length fwdSens" and e: "e < length adjSeed" for d e
  proof -
    let ?u = "s (hd (fwdSeed ! d))" and ?w = "s (hd (adjSeed ! e))"
    have u: "wf_sparsity (m_sp ?u)" "shape (m_sp ?u) = shape (m_sp x)"
      using fseed d len by simp_all
    have w: "wf_sparsity (m_sp ?w)" "shape (m_sp ?w) = shape sp"
      using aseed e by simp_all
    have fs: "s' (hd (fwdSens ! d)) = val_reshape ?u (shape (m_sp ?w))"
      using f d len n w(2) by (simp add: slots0_nth)
    have as: "s' (hd (adjSens ! e)) = val_reshape ?w (shape (m_sp ?u))"
      using a e len fresh n u(2) by (simp add: slots0_nth mx_shape_def)
    have "size1 (m_sp ?u) * size2 (m_sp ?u) = size1 (m_sp ?w) * size2 (m_sp ?w)"
      using sz u(2) w(2) by (simp add: shape_eq_sizes)
    then have "inner_product (val_reshape ?u (shape (m_sp ?w))) ?w =
               inner_product ?u (val_reshape ?w (shape (m_sp ?u)))"
      using u(1) w(1) by (intro val_reshape_adjoint) (simp_all add: wf_sparsity_def)
    then show ?thesis by (simp add: fs as)
  qed
  with r show ?thesis by blast
qed

lemma SubRef_adjoint_identity:
  assumes io: "input = ia # ins" "output = oa # outs" "ia \<noteq> oa"
    and sep: "separate_slots output fwdSeed fwdSens adjSeed adjSens"
    and fresh: "\<forall>e < length adjSeed. s (hd (adjSens ! e)) = val_empty"
    and c: "SubRef val_ops x i j = Inr node"
    and fseed: "\<forall>d < length fwdSeed. m_sp (s (hd (fwdSeed ! d))) = m_sp x \<and>
                  length (m_nz (s (hd (fwdSeed ! d)))) = nnz (m_sp x)"
    and aseed: "\<forall>e < length adjSeed. shape (m_sp (s (hd (adjSeed ! e)))) = shape (sparsity node)"
  shows "\<exists>s'. SubRef_evaluateMX val_ops node input output fwdSeed fwdSens adjSeed adjSens
                 output_given s = Inr s' \<and>
           (\<forall>d < length fwdSens. \<forall>e < length adjSeed.
              shape (m_sp (s' (hd (fwdSens ! d)))) = shape (m_sp (s (hd (adjSeed ! e)))) \<and>
              m_sp (s' (hd (adjSens ! e))) = m_sp (s (hd (fwdSeed ! d))) \<and>
              inner_product (s' (hd (fwdSens ! d))) (s (hd (adjSeed ! e))) =
              inner_product (s (hd (fwdSeed ! d))) (s' (hd (adjSens ! e))))"
proof -
  from sep have len: "length fwdSeed = length fwdSens" "length adjSens = length adjSeed"
    by (simp_all add: separate_slots_def)
  note n = SubRef_fields [OF c]
  from c have st: "0 < step i" "0 < step j"
    and rng: "slice_in_range i (size1 (m_sp x))" "slice_in_range j (size2 (m_sp x))"
    by (auto simp: SubRef_def slice_in_range_def split: if_splits)
  obtain s' where
    r: "SubRef_evaluateMX val_ops node input output fwdSeed fwdSens adjSeed adjSens
          output_given s = Inr s'"
    and f: "\<forall>d < length fwdSens.
              s' (slots0 fwdSens ! d) =
                mx_sub val_ops (s (slots0 fwdSeed ! d)) (i_slice node) (j_slice node)"
    and a: "\<forall>d < length adjSeed.
              s' (slots0 adjSens ! d) =
                mx_addToSum val_ops (s (slots0 adjSens ! d))
                  (mx_scatter val_ops (s (slots0 adjSeed ! d)) (mx_sparsity val_ops (dep node))
                     (i_slice node) (j_slice node)) \<and>
              s' (slots0 adjSeed ! d) = mx_empty val_ops"
    using SubRef_evaluateMX_result [OF io sep, of val_ops node output_given s]
    by (elim exE conjE) (rule that; assumption)
  have "shape (m_sp (s' (hd (fwdSens ! d)))) = shape (m_sp (s (hd (adjSeed ! e)))) \<and>
        m_sp (s' (hd (adjSens ! e))) = m_sp (s (hd (fwdSeed ! d))) \<and>
        inner_product (s' (hd (fwdSens ! d))) (s (hd (adjSeed ! e))) =
        inner_product (s (hd (fwdSeed ! d))) (s' (hd (adjSens ! e)))"
    if d: "d < length fwdSens" and e: "e < length adjSeed" for d e
  proof -
    let ?u = "s (hd (fwdSeed ! d))" and ?w = "s (hd (adjSeed ! e))"
    have u: "m_sp ?u = m_sp x" "length (m_nz ?u) = nnz (m_sp ?u)"
      using fseed d len by simp_all
    have w: "shape (m_sp ?w) = shape (sparsity node)"
      using aseed e by simp
    have fs: "s' (hd (fwdSens ! d)) = val_sub ?u i j"
      using f d len n by (simp add: slots0_nth)
    have as: "s' (hd (adjSens ! e)) = val_scatter ?w (m_sp ?u) i j"
      using a e len fresh n u(1) by (simp add: slots0_nth)
    have "inner_product (val_sub ?u i j) ?w = inner_product ?u (val_scatter ?w (m_sp ?u) i j)"
      using st rng u by (intro val_sub_adjoint) simp_all
    moreover have "shape (m_sp (val_sub ?u i j)) = shape (m_sp ?w)"
      using w n(2) u(1) by (simp add: val_sub_def)
    moreover have "m_sp (val_scatter ?w (m_sp ?u) i j) = m_sp ?u"
      by (simp add: val_scatter_def)
    ultimately show ?thesis by (simp add: fs as)
  qed
  with r show ?thesis by blast
qed

lemma example_reshape_product:
  "inner_product (val_reshape \<lparr>m_sp = dense_sparsity 2 3, m_nz = [1, 2, 3, 4, 5, 6]\<rparr> (3, 2))
     \<lparr>m_sp = \<lparr>size1 = 3, size2 = 2, nz_pos = [(2, 0), (0, 1)]\<rparr>, m_nz = [10, 20]\<rparr> = 110"
  by code_simp

lemma example_subref_product:
  "inner_product
     (val_sub \<lparr>m_sp = dense_sparsity 2 2, m_nz = [1, 2, 3, 4]\<rparr>
        \<lparr>start = 0, stop = 2, step = 1\<rparr> \<lparr>start = 0, stop = 2, step = 1\<rparr>)
     \<lparr>m_sp = \<lparr>size1 = 2, size2 = 2, nz_pos = [(1, 1)]\<rparr>, m_nz = [7]\<rparr> = 28"
  by code_simp

lemma example_scatter:
  "val_scatter \<lparr>m_sp = \<lparr>size1 = 2, size2 = 2, nz_pos = [(1, 1)]\<rparr>, m_nz = [7]\<rparr>
     (dense_sparsity 2 2) \<lparr>start = 0, stop = 2, step = 1\<rparr> \<lparr>start = 0, stop = 2, step = 1\<rparr>
   = \<lparr>m_sp = dense_sparsity 2 2, m_nz = [0, 0, 0, 7]\<rparr>"
  by code_simp

text \<open>
  Claim C2. For both node kinds, with expressions read as matrices and the dot product as
  the sum over all positions of the products of the entries: when the symbolic-graph
  evaluation is called on separate slots with a forward seed \<open>u\<close> shaped like the
  dependency, an adjoint seed \<open>w\<close> shaped like the node's output and empty adjoint
  sensitivity slots, it succeeds; the forward sensitivity \<open>fs\<close> it leaves has the shape
  of \<open>w\<close>, the adjoint sensitivity \<open>as\<close> it leaves has the shape of \<open>u\<close>, and
  \<open>inner_product fs w = inner_product u as\<close>, for every pair of a forward and an adjoint
  direction. For Reshape the seeds are any well-formed matrices of the two shapes, which
  have the same number of entries; for SubRef the forward seed has the dependency's
  pattern and the adjoint seed any pattern.
\<close>

theorem adjoint_identity:
  "(input = ia # ins \<and> output = oa # outs \<and> ia \<noteq> oa \<and>
    separate_slots output fwdSeed fwdSens adjSeed adjSens \<and>
    (\<forall>e < length adjSeed. s (hd (adjSens ! e)) = val_empty) \<and>
    Reshape val_ops x sp = Inr rnode \<and>
    size1 (m_sp x) * size2 (m_sp x) = size1 sp * size2 sp \<and>
    (\<forall>d < length fwdSeed. wf_sparsity (m_sp (s (hd (fwdSeed ! d)))) \<and>
                            shape (m_sp (s (hd (fwdSeed ! d)))) = shape (m_sp x)) \<and>
    (\<forall>e < length adjSeed. wf_sparsity (m_sp (s (hd (adjSeed ! e)))) \<and>
                            shape (m_sp (s (hd (adjSeed ! e)))) = shape sp) \<longrightarrow>
    (\<exists>s'. evaluateMX val_ops rnode input output fwdSeed fwdSens adjSeed adjSens output_given s
              = Inr s' \<and>
        (\<forall>d < length fwdSens. \<forall>e < length adjSeed.
           shape (m_sp (s' (hd (fwdSens ! d)))) = shape (m_sp (s (hd (adjSeed ! e)))) \<and>
           shape (m_sp (s' (hd (adjSens ! e)))) = shape (m_sp (s (hd (fwdSeed ! d)))) \<and>
           inner_product (s' (hd (fwdSens ! d))) (s (hd (adjSeed ! e))) =
           inner_product (s (hd (fwdSeed ! d))) (s' (hd (adjSens ! e)))))) \<and>
   (input = ia # ins \<and> output = oa # outs \<and> ia \<noteq> oa \<and>
    separate_slots output fwdSeed fwdSens adjSeed adjSens \<and>
    (\<forall>e < length adjSeed. s (hd (adjSens ! e)) = val_empty) \<and>
    SubRef val_ops y i j = Inr snode \<and>
    (\<forall>d < length fwdSeed. m_sp (s (hd (fwdSeed ! d))) = m_sp y \<and>
                            length (m_nz (s (hd (fwdSeed ! d)))) = nnz (m_sp y)) \<and>
    (\<forall>e < length adjSeed. shape (m_sp (s (hd (adjSeed ! e)))) = shape (sparsity snode)) \<longrightarrow>
    (\<exists>s'. SubRef_evaluateMX val_ops snode input output fwdSeed fwdSens adjSeed adjSens
              output_given s = Inr s' \<and>
        (\<forall>d < length fwdSens. \<forall>e < length adjSeed.
           shape (m_sp (s' (hd (fwdSens ! d)))) = shape (m_sp (s (hd (adjSeed ! e)))) \<and>
           m_sp (s' (hd (adjSens ! e))) = m_sp (s (hd (fwdSeed ! d))) \<and>
           inner_product (s' (hd (fwdSens ! d))) (s (hd (adjSeed ! e))) =
           inner_product (s (hd (fwdSeed ! d))) (s' (hd (adjSens ! e))))))"
proof (intro conjI impI)
  assume "input = ia # ins \<and> output = oa # outs \<and> ia \<noteq> oa \<and>
    separate_slots output fwdSeed fwdSens adjSeed adjSens \<and>
    (\<forall>e < length adjSeed. s (hd (adjSens ! e)) = val_empty) \<and>
    Reshape val_ops x sp = Inr rnode \<and>
    size1 (m_sp x) * size2 (m_sp x) = size1 sp * size2 sp \<and>
    (\<forall>d < length fwdSeed. wf_sparsity (m_sp (s (hd (fwdSeed ! d)))) \<and>
                            shape (m_sp (s (hd (fwdSeed ! d)))) = shape (m_sp x)) \<and>
    (\<forall>e < length adjSeed. wf_sparsity (m_sp (s (hd (adjSeed ! e)))) \<and>
                            shape (m_sp (s (hd (adjSeed ! e)))) = shape sp)"
  then have h: "input = ia # ins" "output = oa # outs" "ia \<noteq> oa"
    "separate_slots output fwdSeed fwdSens adjSeed adjSens"
    "\<forall>e < length adjSeed. s (hd (adjSens ! e)) = val_empty"
    "Reshape val_ops x sp = Inr rnode"
    "size1 (m_sp x) * size2 (m_sp x) = size1 sp * size2 sp"
    "\<forall>d < length fwdSeed. wf_sparsity (m_sp (s (hd (fwdSeed ! d)))) \<and>
                            shape (m_sp (s (hd (fwdSeed ! d)))) = shape (m_sp x)"
    "\<forall>e < length adjSeed. wf_sparsity (m_sp (s (hd (adjSeed ! e)))) \<and>
                            shape (m_sp (s (hd (adjSeed ! e)))) = shape sp"
    by blast+
  show "\<exists>s'. evaluateMX val_ops rnode input output fwdSeed fwdSens adjSeed adjSens output_given s
              = Inr s' \<and>
        (\<forall>d < length fwdSens. \<forall>e < length adjSeed.
           shape (m_sp (s' (hd (fwdSens ! d)))) = shape (m_sp (s (hd (adjSeed ! e)))) \<and>
           shape (m_sp (s' (hd (adjSens ! e)))) = shape (m_sp (s (hd (fwdSeed ! d)))) \<and>
           inner_product (s' (hd (fwdSens ! d))) (s (hd (adjSeed ! e))) =
           inner_product (s (hd (fwdSeed ! d))) (s' (hd (adjSens ! e))))"
    by (rule Reshape_adjoint_identity [OF h])
next
  assume "input = ia # ins \<and> output = oa # outs \<and> ia \<noteq> oa \<and>
    separate_slots output fwdSeed fwdSens adjSeed adjSens \<and>
    (\<forall>e < length adjSeed. s (hd (adjSens ! e)) = val_empty) \<and>
    SubRef val_ops y i j = Inr snode \<and>
    (\<forall>d < length fwdSeed. m_sp (s (hd (fwdSeed ! d))) = m_sp y \<and>
                            length (m_nz (s (hd (fwdSeed ! d)))) = nnz (m_sp y)) \<and>
    (\<forall>e < length adjSeed. shape (m_sp (s (hd (adjSeed ! e)))) = shape (sparsity snode))"
  then have h: "input = ia # ins" "output = oa # outs" "ia \<noteq> oa"
    "separate_slots output fwdSeed fwdSens adjSeed adjSens"
    "\<forall>e < length adjSeed. s (hd (adjSens ! e)) = val_empty"
    "SubRef val_ops y i j = Inr snode"
    "\<forall>d < length fwdSeed. m_sp (s (hd (fwdSeed ! d))) = m_sp y \<and>
                            length (m_nz (s (hd (fwdSeed ! d)))) = nnz (m_sp y)"
    "\<forall>e < length adjSeed. shape (m_sp (s (hd (adjSeed ! e)))) = shape (sparsity snode)"
    by blast+
  show "\<exists>s'. SubRef_evaluateMX val_ops snode input output fwdSeed fwdSens adjSeed adjSens
              output_given s = Inr s' \<and>
        (\<forall>d < length fwdSens. \<forall>e < length adjSeed.
           shape (m_sp (s' (hd (fwdSens ! d)))) = shape (m_sp (s (hd (adjSeed ! e)))) \<and>
           m_sp (s' (hd (adjSens ! e))) = m_sp (s (hd (fwdSeed ! d))) \<and>
           inner_product (s' (hd (fwdSens ! d))) (s (hd (adjSeed ! e))) =
           inner_product (s (hd (fwdSeed ! d))) (s' (hd (adjSens ! e))))"
    by (rule SubRef_adjoint_identity [OF h])
qed

theorem adjoint_identity_witness:
  "(\<exists>s'. evaluateMX val_ops
            \<lparr>dep = \<lparr>m_sp = dense_sparsity 2 3, m_nz = [0, 0, 0, 0, 0, 0]\<rparr>,
             sparsity = dense_sparsity 3 2\<rparr>
            [0] [1] [[2]] [[3]] [[4]] [[5]] False
            ((\<lambda>a. val_empty)
               (2 := \<lparr>m_sp = dense_sparsity 2 3, m_nz = [1, 2, 3, 4, 5, 6]\<rparr>,
                4 := \<lparr>m_sp = \<lparr>size1 = 3, size2 = 2, nz_pos = [(2, 0), (0, 1)]\<rparr>,
                      m_nz = [10, 20]\<rparr>)) = Inr s' \<and>
          inner_product (s' 3)
            \<lparr>m_sp = \<lparr>size1 = 3, size2 = 2, nz_pos = [(2, 0), (0, 1)]\<rparr>, m_nz = [10, 20]\<rparr> =
          inner_product \<lparr>m_sp = dense_sparsity 2 3, m_nz = [1, 2, 3, 4, 5, 6]\<rparr> (s' 5) \<and>
          inner_product (s' 3)
            \<lparr>m_sp = \<lparr>size1 = 3, size2 = 2, nz_pos = [(2, 0), (0, 1)]\<rparr>, m_nz = [10, 20]\<rparr> =
          110) \<and>
   (\<exists>s'. SubRef_evaluateMX val_ops
            \<lparr>dep = \<lparr>m_sp = dense_sparsity 2 2, m_nz = [0, 0, 0, 0]\<rparr>,
             sparsity = \<lparr>size1 = 2, size2 = 2, nz_pos = [(0, 0), (0, 1), (1, 0), (1, 1)]\<rparr>,
             i_slice = \<lparr>start = 0, stop = 2, step = 1\<rparr>,
             j_slice = \<lparr>start = 0, stop = 2, step = 1\<rparr>\<rparr>
            [0] [1] [[2]] [[3]] [[4]] [[5]] False
            ((\<lambda>a. val_empty)
               (2 := \<lparr>m_sp = dense_sparsity 2 2, m_nz = [1, 2, 3, 4]\<rparr>,
                4 := \<lparr>m_sp = \<lparr>size1 = 2, size2 = 2, nz_pos = [(1, 1)]\<rparr>, m_nz = [7]\<rparr>))
            = Inr s' \<and>
          inner_product (s' 3) \<lparr>m_sp = \<lparr>size1 = 2, size2 = 2, nz_pos = [(1, 1)]\<rparr>, m_nz = [7]\<rparr> =
          inner_product \<lparr>m_sp = dense_sparsity 2 2, m_nz = [1, 2, 3, 4]\<rparr> (s' 5) \<and>
          inner_product (s' 3) \<lparr>m_sp = \<lparr>size1 = 2, size2 = 2, nz_pos = [(1, 1)]\<rparr>, m_nz = [7]\<rparr> =
          28)"
proof -
  let ?X = "\<lparr>m_sp = dense_sparsity 2 3, m_nz = [0, 0, 0, 0, 0, 0]\<rparr>"
  let ?R = "\<lparr>dep = ?X, sparsity = dense_sparsity 3 2\<rparr>"
  let ?U = "\<lparr>m_sp = dense_sparsity 2 3, m_nz = [1, 2, 3, 4, 5, 6]\<rparr>"
  let ?W = "\<lparr>m_sp = \<lparr>size1 = 3, size2 = 2, nz_pos = [(2, 0), (0, 1)]\<rparr>, m_nz = [10, 20]\<rparr>"
  let ?s1 = "(\<lambda>a::addr. val_empty)(2 := ?U, 4 := ?W)"
  let ?Y = "\<lparr>m_sp = dense_sparsity 2 2, m_nz = [0, 0, 0, 0]\<rparr>"
  let ?I = "\<lparr>start = 0, stop = 2, step = 1\<rparr>"
  let ?B = "\<lparr>size1 = 2, size2 = 2, nz_pos = [(0, 0), (0, 1), (1, 0), (1, 1)]\<rparr>"
  let ?N = "\<lparr>dep = ?Y, sparsity = ?B, i_slice = ?I, j_slice = ?I\<rparr>"
  let ?V = "\<lparr>m_sp = dense_sparsity 2 2, m_nz = [1, 2, 3, 4]\<rparr>"
  let ?Z = "\<lparr>m_sp = \<lparr>size1 = 2, size2 = 2, nz_pos = [(1, 1)]\<rparr>, m_nz = [7]\<rparr>"
  let ?s2 = "(\<lambda>a::addr. val_empty)(2 := ?V, 4 := ?Z)"
  have sep: "separate_slots [1] [[2]] [[3]] [[4]] [[5]]"
    by (simp add: separate_slots_def slots0_def)
  have n: "nnz (dense_sparsity 2 3) = 6" "nnz (dense_sparsity 3 2) = 6"
    "nnz (dense_sparsity 2 2) = 4"
    by (simp_all add: nnz_def dense_sparsity_def)
  have wf: "wf_sparsity (dense_sparsity 2 3)"
    "wf_sparsity \<lparr>size1 = 3, size2 = 2, nz_pos = [(2, 0), (0, 1)]\<rparr>"
    by code_simp+
  have sh: "shape (dense_sparsity 2 3) = (2, 3)" "shape (dense_sparsity 3 2) = (3, 2)"
    "shape (dense_sparsity 2 2) = (2, 2)"
    by (simp_all add: shape_def)
  have c1: "Reshape val_ops ?X (dense_sparsity 3 2) = Inr ?R"
    by (simp add: Reshape_def mx_nnz_def n)
  have sub: "sub_sparsity (dense_sparsity 2 2) ?I ?I = ?B"
    by code_simp
  have rng: "slice_in_range ?I 2"
    by code_simp
  have c2: "SubRef val_ops ?Y ?I ?I = Inr ?N"
    using rng by (simp add: SubRef_def sub del: One_nat_def)
  have h1: "[0] = 0 # [] \<and> [1] = 1 # [] \<and> (0::addr) \<noteq> 1 \<and>
      separate_slots [1] [[2]] [[3]] [[4]] [[5]] \<and>
      (\<forall>e < length [[4::addr]]. ?s1 (hd ([[5]] ! e)) = val_empty) \<and>
      Reshape val_ops ?X (dense_sparsity 3 2) = Inr ?R \<and>
      size1 (m_sp ?X) * size2 (m_sp ?X) = size1 (dense_sparsity 3 2) * size2 (dense_sparsity 3 2) \<and>
      (\<forall>d < length [[2::addr]]. wf_sparsity (m_sp (?s1 (hd ([[2]] ! d)))) \<and>
                            shape (m_sp (?s1 (hd ([[2]] ! d)))) = shape (m_sp ?X)) \<and>
      (\<forall>e < length [[4::addr]]. wf_sparsity (m_sp (?s1 (hd ([[4]] ! e)))) \<and>
                            shape (m_sp (?s1 (hd ([[4]] ! e)))) = shape (dense_sparsity 3 2))"
    using sep c1 wf sh by (simp add: shape_def)
  have h2: "[0] = 0 # [] \<and> [1] = 1 # [] \<and> (0::addr) \<noteq> 1 \<and>
      separate_slots [1] [[2]] [[3]] [[4]] [[5]] \<and>
      (\<forall>e < length [[4::addr]]. ?s2 (hd ([[5]] ! e)) = val_empty) \<and>
      SubRef val_ops ?Y ?I ?I = Inr ?N \<and>
      (\<forall>d < length [[2::addr]]. m_sp (?s2 (hd ([[2]] ! d))) = m_sp ?Y \<and>
                            length (m_nz (?s2 (hd ([[2]] ! d)))) = nnz (m_sp ?Y)) \<and>
      (\<forall>e < length [[4::addr]]. shape (m_sp (?s2 (hd ([[4]] ! e)))) = shape (sparsity ?N))"
    using sep c2 n by (simp add: shape_def)
  from adjoint_identity [where s = "(\<lambda>a. val_empty)
               (2 := \<lparr>m_sp = dense_sparsity 2 3, m_nz = [1, 2, 3, 4, 5, 6]\<rparr>,
                4 := \<lparr>m_sp = \<lparr>size1 = 3, size2 = 2, nz_pos = [(2, 0), (0, 1)]\<rparr>,
                      m_nz = [10, 20]\<rparr>)" and output_given = False,
      THEN conjunct1, THEN mp, OF h1]
  obtain s' where r1: "evaluateMX val_ops ?R [0] [1] [[2]] [[3]] [[4]] [[5]] False ?s1 = Inr s'"
    and i1: "\<forall>d < length [[3::addr]]. \<forall>e < length [[4::addr]].
           shape (m_sp (s' (hd ([[3]] ! d)))) = shape (m_sp (?s1 (hd ([[4]] ! e)))) \<and>
           shape (m_sp (s' (hd ([[5]] ! e)))) = shape (m_sp (?s1 (hd ([[2]] ! d)))) \<and>
           inner_product (s' (hd ([[3]] ! d))) (?s1 (hd ([[4]] ! e))) =
           inner_product (?s1 (hd ([[2]] ! d))) (s' (hd ([[5]] ! e)))"
    by (elim exE conjE)
  from i1 have a1: "inner_product (s' 3) ?W = inner_product ?U (s' 5)"
    by simp
  have "\<exists>t. evaluateMX val_ops ?R [0] [1] [[2]] [[3]] [[4]] [[5]] False ?s1 = Inr t \<and>
          (\<forall>d < length [[3::addr]].
              t (slots0 [[3]] ! d) =
                mx_reshape val_ops (?s1 (slots0 [[2]] ! d)) (shape (sparsity ?R))) \<and>
          (\<forall>d < length [[4::addr]].
              t (slots0 [[5]] ! d) =
                mx_addToSum val_ops (?s1 (slots0 [[5]] ! d))
                  (mx_reshape val_ops (?s1 (slots0 [[4]] ! d)) (mx_shape val_ops (dep ?R))) \<and>
              t (slots0 [[4]] ! d) = mx_empty val_ops)"
    by (rule evaluateMX_result [where ia = 0 and oa = 1 and ins = "[]" and outs = "[]",
          OF _ _ _ sep]) simp_all
  with r1 have "s' 3 = val_reshape ?U (3, 2)"
    by (auto simp: slots0_def sh)
  then have b1: "inner_product (s' 3) ?W = 110"
    using example_reshape_product by simp
  from adjoint_identity [where s = "(\<lambda>a. val_empty)
               (2 := \<lparr>m_sp = dense_sparsity 2 2, m_nz = [1, 2, 3, 4]\<rparr>,
                4 := \<lparr>m_sp = \<lparr>size1 = 2, size2 = 2, nz_pos = [(1, 1)]\<rparr>, m_nz = [7]\<rparr>)"
        and output_given = False,
      THEN conjunct2, THEN mp, OF h2]
  obtain s'' where
    r2: "SubRef_evaluateMX val_ops ?N [0] [1] [[2]] [[3]] [[4]] [[5]] False ?s2 = Inr s''"
    and i2: "\<forall>d < length [[3::addr]]. \<forall>e < length [[4::addr]].
           shape (m_sp (s'' (hd ([[3]] ! d)))) = shape (m_sp (?s2 (hd ([[4]] ! e)))) \<and>
           m_sp (s'' (hd ([[5]] ! e))) = m_sp (?s2 (hd ([[2]] ! d))) \<and>
           inner_product (s'' (hd ([[3]] ! d))) (?s2 (hd ([[4]] ! e))) =
           inner_product (?s2 (hd ([[2]] ! d))) (s'' (hd ([[5]] ! e)))"
    by (elim exE conjE)
  from i2 have a2: "inner_product (s'' 3) ?Z = inner_product ?V (s'' 5)"
    by simp
  have "\<exists>t. SubRef_evaluateMX val_ops ?N [0] [1] [[2]] [[3]] [[4]] [[5]] False ?s2 = Inr t \<and>
          (\<forall>d < length [[3::addr]].
              t (slots0 [[3]] ! d) =
                mx_sub val_ops (?s2 (slots0 [[2]] ! d)) (i_slice ?N) (j_slice ?N)) \<and>
          (\<forall>d < length [[4::addr]].
              t (slots0 [[5]] ! d) =
                mx_addToSum val_ops (?s2 (slots0 [[5]] ! d))
                  (mx_scatter val_ops (?s2 (slots0 [[4]] ! d)) (mx_sparsity val_ops (dep ?N))
                     (i_slice ?N) (j_slice ?N)) \<and>
              t (slots0 [[4]] ! d) = mx_empty val_ops)"
    by (rule SubRef_evaluateMX_result [where ia = 0 and oa = 1 and ins = "[]" and outs = "[]",
          OF _ _ _ sep]) simp_all
  with r2 have "s'' 3 = val_sub ?V ?I ?I"
    by (auto simp: slots0_def simp del: One_nat_def)
  then have b2: "inner_product (s'' 3) ?Z = 28"
    using example_subref_product by simp
  show ?thesis using r1 a1 b1 r2 a2 b2 by blast
qed

end
